theory Spec2Isabelle
  imports Main "HOL-Library.Word"
begin

section \<open>JavaScript values\<close>

text \<open>
  A JavaScript string is a sequence of UTF-16 code units. String literals of the scripts
  are written \<open>js ''...''\<close>.
\<close>

type_synonym jsstring = "16 word list"

definition js :: "string \<Rightarrow> jsstring" where
  "js s = map of_char s"

definition DQUOTE :: "16 word" where "DQUOTE = 34"
definition COMMA :: "16 word" where "COMMA = 44"
definition LF :: "16 word" where "LF = 10"
definition CR :: "16 word" where "CR = 13"

text \<open>
  The values the scripts handle: what \<open>res.json()\<close> returns, plus \<open>undefined\<close> for a
  missing property. A number is carried as the text \<open>String()\<close> gives for it (the only
  operations the scripts apply to a number are \<open>String()\<close> and the truthiness test, and a
  JSON number is falsy exactly when that text is \<open>0\<close>). An object is the list of its
  own properties.
\<close>

datatype jsval =
    Undefined
  | Null
  | Bool bool
  | Num jsstring
  | Str jsstring
  | Arr "jsval list"
  | Obj "(jsstring \<times> jsval) list"

fun join_with :: "jsstring \<Rightarrow> jsstring list \<Rightarrow> jsstring" where
  "join_with sep [] = []"
| "join_with sep [x] = x"
| "join_with sep (x # y # ys) = x @ sep @ join_with sep (y # ys)"

text \<open>
  What a function of the scripts throws: the \<open>RangeError\<close> of an array length out of
  range, the \<open>TypeError\<close> of a conversion to string, or an error \<open>e\<close> that comes from
  elsewhere (from \<open>fetch\<close>, from a browser page, from a callback).
\<close>

datatype 'e thrown = RangeError | TypeError | Thrown 'e

text \<open>
  \<open>String(v)\<close>, which returns a string or throws a \<open>TypeError\<close> (\<open>None\<close>). An object is
  converted by its \<open>toString\<close> method: a parsed object with an own property \<open>toString\<close>
  has a JSON value there, which cannot be called, and \<open>valueOf\<close> gives no primitive
  either, so the conversion throws; any other parsed object inherits the method that
  answers \<open>[object Object]\<close>. An array joins the strings of its elements with commas,
  \<open>null\<close> and \<open>undefined\<close> elements giving the empty string, and throws when the
  conversion of an element throws.
\<close>

fun js_String :: "jsval \<Rightarrow> jsstring option" where
  "js_String Undefined = Some (js ''undefined'')"
| "js_String Null = Some (js ''null'')"
| "js_String (Bool b) = Some (if b then js ''true'' else js ''false'')"
| "js_String (Num t) = Some t"
| "js_String (Str s) = Some s"
| "js_String (Arr xs) =
     map_option (join_with [COMMA])
       (those (map (\<lambda>x. if x = Undefined \<or> x = Null then Some [] else js_String x) xs))"
| "js_String (Obj ps) =
     (if js ''toString'' \<in> fst ` set ps then None else Some (js ''[object Object]''))"

section \<open>CSV writing and reading\<close>

text \<open>
  \<^verbatim>\<open>
  function csvEscape(val) {
    if (val === null || val === undefined) return "";
    const s = String(val);
    if (/[",\n\r]/.test(s)) return `"${s.replace(/"/g, '""')}"`;
    return s;
  }
  \<close>
\<close>

definition needs_quoting :: "jsstring \<Rightarrow> bool" where
  "needs_quoting s = (\<exists>c \<in> set s. c = DQUOTE \<or> c = COMMA \<or> c = LF \<or> c = CR)"

fun double_quotes :: "jsstring \<Rightarrow> jsstring" where
  "double_quotes [] = []"
| "double_quotes (c # cs) =
     (if c = DQUOTE then DQUOTE # DQUOTE # double_quotes cs else c # double_quotes cs)"

text \<open>The last two lines, on the string \<open>s\<close>.\<close>

definition escape_text :: "jsstring \<Rightarrow> jsstring" where
  "escape_text s = (if needs_quoting s then [DQUOTE] @ double_quotes s @ [DQUOTE] else s)"

text \<open>\<open>csvEscape(val)\<close> returns a string or throws what \<open>String(val)\<close> throws (\<open>None\<close>).\<close>

definition csvEscape :: "jsval \<Rightarrow> jsstring option" where
  "csvEscape val =
     (if val = Null \<or> val = Undefined then Some []
      else map_option escape_text (js_String val))"

text \<open>
  \<^verbatim>\<open>
  function splitCSVLine(line) {
    const out = []; let cur = ""; let inQuotes = false;
    for (let i = 0; i < line.length; i++) {
      const ch = line[i];
      if (ch === '"') {
        if (inQuotes && line[i + 1] === '"') { cur += '"'; i++; }
        else { inQuotes = !inQuotes; }
        continue;
      }
      if (ch === "," && !inQuotes) { out.push(cur); cur = ""; continue; }
      cur += ch;
    }
    out.push(cur);
    return out;
  }
  \<close>
  The loop runs over the rest of the line; \<open>line[i + 1]\<close> past the end is \<open>undefined\<close>,
  which is not a quote.
\<close>

fun splitCSVLine_loop ::
  "jsstring \<Rightarrow> jsstring list \<Rightarrow> jsstring \<Rightarrow> bool \<Rightarrow> jsstring list" where
  "splitCSVLine_loop [] out cur inQuotes = out @ [cur]"
| "splitCSVLine_loop (ch # rest) out cur inQuotes =
     (if ch = DQUOTE then
        (case rest of
           nxt # rest' \<Rightarrow>
             if inQuotes \<and> nxt = DQUOTE
             then splitCSVLine_loop rest' out (cur @ [DQUOTE]) inQuotes
             else splitCSVLine_loop rest out cur (\<not> inQuotes)
         | [] \<Rightarrow> splitCSVLine_loop rest out cur (\<not> inQuotes))
      else if ch = COMMA \<and> \<not> inQuotes then splitCSVLine_loop rest (out @ [cur]) [] inQuotes
      else splitCSVLine_loop rest out (cur @ [ch]) inQuotes)"

definition splitCSVLine :: "jsstring \<Rightarrow> jsstring list" where
  "splitCSVLine line = splitCSVLine_loop line [] [] False"

text \<open>
  A row of the CSV file: \<open>row.map(csvEscape).join(",")\<close>, which throws when \<open>csvEscape\<close>
  throws on a cell.
\<close>

definition csv_line :: "jsval list \<Rightarrow> jsstring option" where
  "csv_line row = map_option (join_with [COMMA]) (those (map csvEscape row))"

section \<open>Reading parsed JSON\<close>

text \<open>
  \<open>v?.k\<close>: the own property \<open>k\<close> of an object, \<open>undefined\<close> when it is missing or
  when \<open>v\<close> is \<open>null\<close> or \<open>undefined\<close>. None of the property names the scripts read on
  parsed JSON is a built-in property of a string, a number or a boolean, so these give
  \<open>undefined\<close>; on an array the only such name, \<open>values\<close>, is a built-in function, which
  \<open>Array.isArray\<close> rejects as it rejects \<open>undefined\<close>.
\<close>

fun lookup :: "(jsstring \<times> jsval) list \<Rightarrow> jsstring \<Rightarrow> jsval" where
  "lookup [] k = Undefined"
| "lookup ((k', v) # ps) k = (if k' = k then v else lookup ps k)"

fun get :: "jsval \<Rightarrow> jsstring \<Rightarrow> jsval" where
  "get (Obj ps) k = lookup ps k"
| "get v k = Undefined"

text \<open>\<open>v?.[0]\<close>\<close>

fun get0 :: "jsval \<Rightarrow> jsval" where
  "get0 (Arr []) = Undefined"
| "get0 (Arr (x # xs)) = x"
| "get0 (Str []) = Undefined"
| "get0 (Str (c # cs)) = Str [c]"
| "get0 (Obj ps) = lookup ps (js ''0'')"
| "get0 v = Undefined"

text \<open>\<open>Boolean(v)\<close>\<close>

fun truthy :: "jsval \<Rightarrow> bool" where
  "truthy Undefined = False"
| "truthy Null = False"
| "truthy (Bool b) = b"
| "truthy (Num t) = (t \<noteq> js ''0'')"
| "truthy (Str s) = (s \<noteq> [])"
| "truthy (Arr xs) = True"
| "truthy (Obj ps) = True"

text \<open>\<open>a || b\<close> and \<open>a ?? b\<close>\<close>

definition js_or :: "jsval \<Rightarrow> jsval \<Rightarrow> jsval" where
  "js_or a b = (if truthy a then a else b)"

definition nullish :: "jsval \<Rightarrow> jsval \<Rightarrow> jsval" where
  "nullish a b = (if a = Undefined \<or> a = Null then b else a)"

fun isArray :: "jsval \<Rightarrow> bool" where
  "isArray (Arr xs) = True"
| "isArray v = False"

fun elements :: "jsval \<Rightarrow> jsval list" where
  "elements (Arr xs) = xs"
| "elements v = []"

text \<open>\<open>xs.find(p)\<close>: the first element that satisfies \<open>p\<close>, else \<open>undefined\<close>.\<close>

fun js_find :: "(jsval \<Rightarrow> bool) \<Rightarrow> jsval list \<Rightarrow> jsval" where
  "js_find p [] = Undefined"
| "js_find p (x # xs) = (if p x then x else js_find p xs)"

section \<open>Dimension discovery\<close>

record color_value =
  c_id :: jsstring
  c_name :: jsval
  c_inStockHint :: jsval
  c_swatch_url :: jsval

record size_value =
  s_id :: jsstring
  s_label :: jsval
  s_inStockHint :: jsval

record variation_attributes =
  colors :: "color_value list"
  sizes :: "size_value list"
  hasSizeAttribute :: bool

text \<open>\<open>(a) => (a?.id || a?.attributeId) === name\<close>\<close>

definition attr_is :: "string \<Rightarrow> jsval \<Rightarrow> bool" where
  "attr_is name a = (js_or (get a (js ''id'')) (get a (js ''attributeId'')) = Str (js name))"

text \<open>\<open>(v) => v?.selectable !== false\<close>\<close>

definition selectable :: "jsval \<Rightarrow> bool" where
  "selectable v = (get v (js ''selectable'') \<noteq> Bool False)"

text \<open>\<open>String(v?.value ?? v?.id ?? "")\<close>: a string, or the \<open>TypeError\<close> of \<open>String\<close>.\<close>

definition value_id :: "jsval \<Rightarrow> jsstring option" where
  "value_id v = js_String (nullish (nullish (get v (js ''value'')) (get v (js ''id''))) (Str []))"

text \<open>
  The callbacks of \<open>colorAttr.values...map(...)\<close> and \<open>sizeAttr.values...map(...)\<close>. The
  object literal evaluates \<open>id\<close> first, and only that can throw.
\<close>

definition mk_color :: "jsval \<Rightarrow> color_value option" where
  "mk_color v =
     map_option
       (\<lambda>i. \<lparr> c_id = i,
              c_name = nullish (get v (js ''displayValue'')) Null,
              c_inStockHint = nullish (get v (js ''inStock'')) Null,
              c_swatch_url =
                (let sw = get0 (get (get v (js ''images'')) (js ''swatch''))
                 in js_or (js_or (get sw (js ''absURL'')) (get sw (js ''url''))) Null) \<rparr>)
       (value_id v)"

definition mk_size :: "jsval \<Rightarrow> size_value option" where
  "mk_size v =
     map_option
       (\<lambda>i. \<lparr> s_id = i,
              s_label = nullish (get v (js ''displayValue'')) Null,
              s_inStockHint = nullish (get v (js ''inStock'')) Null \<rparr>)
       (value_id v)"

text \<open>The placeholder size \<open>{ id: "NS", label: "NS", inStockHint: null }\<close>.\<close>

definition NS_size :: size_value where
  "NS_size = \<lparr> s_id = js ''NS'', s_label = Str (js ''NS''), s_inStockHint = Null \<rparr>"

text \<open>
  \<open>extractVariationAttributes(product)\<close>: the color and size attributes are looked up by
  id among \<open>product.variationAttributes\<close>; of each, the values not marked
  \<open>selectable: false\<close> and with a non-empty id are kept. Without a non-empty array of
  size values the sizes are the single placeholder. The colors are made first, then the
  sizes; \<open>.map\<close> calls its callback on the values in order and a throw of the callback is
  the throw of the whole function (\<open>None\<close>).
\<close>

definition extractVariationAttributes :: "jsval \<Rightarrow> variation_attributes option" where
  "extractVariationAttributes product =
     (let attrs = (if isArray (get product (js ''variationAttributes''))
                   then elements (get product (js ''variationAttributes'')) else []);
          colorAttr = js_find (attr_is ''color'') attrs;
          sizeAttr = js_find (attr_is ''size'') attrs
      in case (if isArray (get colorAttr (js ''values''))
               then map_option (filter (\<lambda>c. c_id c \<noteq> []))
                      (those (map mk_color
                                (filter selectable (elements (get colorAttr (js ''values''))))))
               else Some []) of
           None \<Rightarrow> None
         | Some cs \<Rightarrow>
             (let hasSizeAttribute = (isArray (get sizeAttr (js ''values''))
                                      \<and> length (elements (get sizeAttr (js ''values''))) \<noteq> 0)
              in case (if hasSizeAttribute
                       then map_option (filter (\<lambda>s. s_id s \<noteq> []))
                              (those (map mk_size
                                        (filter selectable (elements (get sizeAttr (js ''values''))))))
                       else Some [NS_size]) of
                   None \<Rightarrow> None
                 | Some ss \<Rightarrow>
                     Some \<lparr> colors = cs, sizes = ss,
                            hasSizeAttribute = hasSizeAttribute \<rparr>))"

section \<open>Combination generator\<close>

text \<open>
  \<^verbatim>\<open>
  const tasks = [];
  for (const c of colors)
    for (const s of sizes) tasks.push({ color: c, size: s });
  \<close>
\<close>

definition make_tasks :: "'c list \<Rightarrow> 's list \<Rightarrow> ('c \<times> 's) list" where
  "make_tasks cs ss = foldl (\<lambda>tasks c. foldl (\<lambda>tasks s. tasks @ [(c, s)]) tasks ss) [] cs"

text \<open>
  The specification's generator, over any list of dimensions: the full cartesian product,
  the first dimension varying slowest. A combination is the list of its values, one per
  dimension.
\<close>

fun spec_combinations :: "'v list list \<Rightarrow> 'v list list" where
  "spec_combinations [] = [[]]"
| "spec_combinations (d # ds) = concat (map (\<lambda>v. map ((#) v) (spec_combinations ds)) d)"

section \<open>Retrying fetcher\<close>

text \<open>
  What \<open>fetchJson\<close> throws from an attempt: the abort of its \<open>AbortController\<close>, a
  transport failure of \<open>fetch\<close>, the \<open>Error\<close> it raises itself on a response that is not
  \<open>ok\<close>, and the \<open>SyntaxError\<close> of \<open>res.json()\<close> on a body that is not JSON.
\<close>

datatype fetch_error = AbortError | TransportError | HttpError nat | SyntaxError

text \<open>
  The remote side. A request either fails in transport or is answered with a status and a
  body, which parses as JSON or does not. The \<open>k\<close>-th call of \<open>fetch\<close> within one
  \<open>fetchJson\<close> meets \<open>net k\<close>: the milliseconds until the response (or the transport
  failure) arrives, the milliseconds reading the body takes, and the reply.
\<close>

datatype reply = Unreachable | Response nat "jsval option"

type_synonym network = "nat \<Rightarrow> nat \<times> nat \<times> reply"

record fetch_config =
  timeoutMs :: nat
  retries :: int
  retryDelayMs :: nat

text \<open>
  The state one \<open>fetchJson\<close> call works on: the clock, the pending abort timer (its
  firing time), whether the controller's signal is aborted, and a record of what was
  done: the number of \<open>fetch\<close> calls, the sleeps, and for each attempt its start, its end
  and what it gave.
\<close>

record world =
  now :: nat
  timer :: "nat option"
  aborted :: bool
  calls :: nat
  waits :: "nat list"
  attempts :: "(nat \<times> nat \<times> (fetch_error + jsval)) list"

text \<open>
  \<open>setTimeout(f, ms)\<close>: Node sets a delay below 1 or above 2147483647 to 1. The timer
  is taken to fire exactly when it is due.
\<close>

definition timer_delay :: "nat \<Rightarrow> nat" where
  "timer_delay ms = (if ms < 1 \<or> 2147483647 < ms then 1 else ms)"

text \<open>Time passes up to \<open>t\<close>; a pending timer whose time has come fires and aborts.\<close>

definition advance :: "nat \<Rightarrow> world \<Rightarrow> world" where
  "advance t w =
     (case timer w of
        None \<Rightarrow> w\<lparr>now := t\<rparr>
      | Some d \<Rightarrow> if d \<le> t then w\<lparr>now := t, timer := None, aborted := True\<rparr> else w\<lparr>now := t\<rparr>)"

definition res_ok :: "nat \<Rightarrow> bool" where
  "res_ok status = (200 \<le> status \<and> status \<le> 299)"

definition in_time :: "nat option \<Rightarrow> nat \<Rightarrow> bool" where
  "in_time tm t = (case tm of None \<Rightarrow> True | Some d \<Rightarrow> t \<le> d)"

definition cut :: "nat option \<Rightarrow> nat \<Rightarrow> nat" where
  "cut tm t = (case tm of None \<Rightarrow> t | Some d \<Rightarrow> min d t)"

text \<open>
  One pass through the body of the \<open>try\<close>: \<open>fetch\<close> with the controller's signal, the
  \<open>ok\<close> test, \<open>res.json()\<close>. It gives the time at which the attempt ends and what it
  returns or throws. With the signal already aborted \<open>fetch\<close> rejects at once. An abort
  while the text of a response that is not \<open>ok\<close> is read is swallowed by
  \<open>.catch(() => "")\<close>, and the HTTP error is thrown.
\<close>

definition attempt_result ::
  "nat \<Rightarrow> nat option \<Rightarrow> bool \<Rightarrow> nat \<times> nat \<times> reply \<Rightarrow> nat \<times> (fetch_error + jsval)" where
  "attempt_result t0 tm ab call =
     (case call of (h, b, r) \<Rightarrow>
        if ab then (t0, Inl AbortError)
        else if \<not> in_time tm (t0 + h) then (cut tm (t0 + h), Inl AbortError)
        else (case r of
                Unreachable \<Rightarrow> (t0 + h, Inl TransportError)
              | Response status body \<Rightarrow>
                  if \<not> res_ok status then (cut tm (t0 + h + b), Inl (HttpError status))
                  else if \<not> in_time tm (t0 + h + b) then (cut tm (t0 + h + b), Inl AbortError)
                  else (t0 + h + b,
                        case body of None \<Rightarrow> Inl SyntaxError | Some j \<Rightarrow> Inr j)))"

definition fetch_call :: "network \<Rightarrow> world \<Rightarrow> (fetch_error + jsval) \<times> world" where
  "fetch_call net w =
     (case attempt_result (now w) (timer w) (aborted w) (net (calls w)) of
        (t1, r) \<Rightarrow>
          (r, (advance t1 w)\<lparr>calls := calls w + 1,
                             attempts := attempts w @ [(now w, t1, r)]\<rparr>))"

text \<open>
  \<open>await sleep(ms)\<close>, with \<open>sleep(ms)\<close> the promise that \<open>setTimeout(r, ms)\<close> resolves:
  the clock moves on by the delay of that timer, and \<open>waits\<close> records the \<open>ms\<close> asked for.
\<close>

definition sleep :: "nat \<Rightarrow> world \<Rightarrow> world" where
  "sleep ms w = (advance (now w + timer_delay ms) w)\<lparr>waits := waits w @ [ms]\<rparr>"

text \<open>
  \<^verbatim>\<open>
  let lastErr;
  for (let attempt = 0; attempt <= retries; attempt++) {
    try {
      const res = await fetch(url, { ..., signal: controller.signal });
      if (!res.ok) { ... throw new Error(`HTTP ${res.status} ...`); }
      return await res.json();
    } catch (e) {
      lastErr = e;
      if (attempt < retries) await sleep(retryDelayMs * (attempt + 1));
    }
  }
  throw lastErr;
  \<close>
  \<open>Inl lastErr\<close> is the throw; \<open>lastErr\<close> is \<open>None\<close> (\<open>undefined\<close>) when the loop never ran.
\<close>

function fetchJson_loop ::
  "network \<Rightarrow> fetch_config \<Rightarrow> nat \<Rightarrow> fetch_error option \<Rightarrow> world
     \<Rightarrow> (fetch_error option + jsval) \<times> world" where
  "fetchJson_loop net cfg attempt lastErr w =
     (if int attempt \<le> retries cfg then
        (case fetch_call net w of
           (Inr j, w') \<Rightarrow> (Inr j, w')
         | (Inl e, w') \<Rightarrow>
             fetchJson_loop net cfg (attempt + 1) (Some e)
               (if int attempt < retries cfg
                then sleep (retryDelayMs cfg * (attempt + 1)) w' else w'))
      else (Inl lastErr, w))"
  by pat_completeness auto
termination
  by (relation "measure (\<lambda>(net, cfg, attempt, lastErr, w). nat (retries cfg + 1 - int attempt))")
     auto

text \<open>
  \<^verbatim>\<open>
  async function fetchJson(url, { timeoutMs, retries, retryDelayMs }) {
    const controller = new AbortController();
    const timer = setTimeout(() => controller.abort(), timeoutMs);
    try { ...the loop... } finally { clearTimeout(timer); }
  }
  \<close>
  The call starts at time \<open>t0\<close>; its timer is due \<open>timer_delay timeoutMs\<close> later.
\<close>

definition start_world :: "fetch_config \<Rightarrow> nat \<Rightarrow> world" where
  "start_world cfg t0 =
     \<lparr> now = t0, timer = Some (t0 + timer_delay (timeoutMs cfg)), aborted = False,
       calls = 0, waits = [], attempts = [] \<rparr>"

definition fetchJson ::
  "network \<Rightarrow> fetch_config \<Rightarrow> nat \<Rightarrow> (fetch_error option + jsval) \<times> world" where
  "fetchJson net cfg t0 =
     (case fetchJson_loop net cfg 0 None (start_world cfg t0) of
        (r, w) \<Rightarrow> (r, w\<lparr>timer := None\<rparr>))"

text \<open>What the attempts of a run gave, in order, and when attempt \<open>k\<close> started and ended.\<close>

definition outcomes :: "world \<Rightarrow> (fetch_error + jsval) list" where
  "outcomes w = map (\<lambda>a. snd (snd a)) (attempts w)"

definition started :: "world \<Rightarrow> nat \<Rightarrow> nat" where
  "started w k = fst (attempts w ! k)"

definition ended :: "world \<Rightarrow> nat \<Rightarrow> nat" where
  "ended w k = fst (snd (attempts w ! k))"

section \<open>Bounded worker pool\<close>

text \<open>
  \<^verbatim>\<open>
  async function mapLimit(items, limit, mapper) {
    const out = new Array(items.length);
    let idx = 0;
    async function worker() {
      while (true) {
        const my = idx++;
        if (my >= items.length) return;
        out[my] = await mapper(items[my], my);
      }
    }
    const workers = Array.from({ length: Math.max(1, limit) }, () => worker());
    await Promise.all(workers);
    return out;
  }
  \<close>
  A worker is suspended at its \<open>await\<close> with the mapper call for index \<open>my\<close> in flight,
  or has returned, or has thrown what its mapper call threw. The pool state holds the
  shared \<open>idx\<close> and \<open>out\<close> (a hole of \<open>new Array(n)\<close> is \<open>None\<close>), the workers, and how
  the promise that \<open>mapLimit\<close> returned is settled: not yet, rejected with what was
  thrown, or fulfilled with \<open>out\<close>.
\<close>

datatype 'e worker = Awaiting nat | Returned | Threw 'e

record ('e, 'b) pool =
  idx :: nat
  out :: "'b option list"
  workers :: "'e worker list"
  settled :: "('e thrown + 'b option list) option"

text \<open>\<open>const my = idx++; if (my >= items.length) return;\<close> and then the mapper call.\<close>

definition enter :: "nat \<Rightarrow> nat \<Rightarrow> 'e worker" where
  "enter n my = (if my \<ge> n then Returned else Awaiting my)"

text \<open>\<open>worker()\<close> is called: it runs up to its first \<open>await\<close>.\<close>

definition start_worker :: "nat \<Rightarrow> ('e, 'b) pool \<Rightarrow> ('e, 'b) pool" where
  "start_worker n p = p\<lparr>idx := idx p + 1, workers := workers p @ [enter n (idx p)]\<rparr>"

text \<open>Worker \<open>w\<close> goes round its loop again.\<close>

definition resume :: "nat \<Rightarrow> nat \<Rightarrow> ('e, 'b) pool \<Rightarrow> ('e, 'b) pool" where
  "resume n w p = p\<lparr>idx := idx p + 1, workers := (workers p)[w := enter n (idx p)]\<rparr>"

text \<open>
  \<open>await Promise.all(workers); return out;\<close> The promise of \<open>Promise.all\<close> rejects with
  the first worker that throws and fulfils once every worker has returned.
\<close>

definition all_returned :: "('e, 'b) pool \<Rightarrow> bool" where
  "all_returned p = list_all (\<lambda>w. w = Returned) (workers p)"

definition settle :: "('e, 'b) pool \<Rightarrow> ('e, 'b) pool" where
  "settle p =
     (if settled p = None \<and> all_returned p then p\<lparr>settled := Some (Inr (out p))\<rparr> else p)"

definition reject :: "'e \<Rightarrow> nat \<Rightarrow> ('e, 'b) pool \<Rightarrow> ('e, 'b) pool" where
  "reject e w p =
     p\<lparr>workers := (workers p)[w := Threw e],
       settled := (case settled p of None \<Rightarrow> Some (Inl (Thrown e)) | Some r \<Rightarrow> Some r)\<rparr>"

text \<open>
  The body of \<open>mapLimit\<close> up to \<open>await Promise.all(workers)\<close>, for an integer \<open>limit\<close>.
  \<open>Array.from({ length: n }, f)\<close> first makes \<open>new Array(n)\<close>, which throws a
  \<open>RangeError\<close> when \<open>n\<close> is \<open>2^32\<close> or more: then \<open>f\<close> is never called, no worker starts,
  and the promise that \<open>mapLimit\<close> returned is rejected with that error. Otherwise it
  calls \<open>worker()\<close> \<open>n\<close> times.
\<close>

definition mapLimit_start :: "'a list \<Rightarrow> int \<Rightarrow> ('e, 'b) pool" where
  "mapLimit_start items limit =
     (if 4294967296 \<le> max 1 limit
      then \<lparr>idx = 0, out = replicate (length items) None, workers = [],
            settled = Some (Inl RangeError)\<rparr>
      else settle ((start_worker (length items) ^^ nat (max 1 limit))
                     \<lparr>idx = 0, out = replicate (length items) None, workers = [],
                      settled = None\<rparr>))"

text \<open>
  \<open>mapper x i\<close> is how the call \<open>mapper(items[i], i)\<close> settles: \<open>Inr v\<close> when it
  returns \<open>v\<close>, \<open>Inl e\<close> when it throws \<open>e\<close>. When it settles is not part of it: that is
  the schedule below.

  The mapper call that worker \<open>w\<close> awaits settles: with \<open>Inr v\<close> the worker stores \<open>v\<close> at
  its index and goes on, with \<open>Inl e\<close> the \<open>await\<close> throws and the worker throws.
\<close>

definition complete ::
  "'a list \<Rightarrow> ('a \<Rightarrow> nat \<Rightarrow> 'e + 'b) \<Rightarrow> nat \<Rightarrow> ('e, 'b) pool \<Rightarrow> ('e, 'b) pool" where
  "complete items mapper w p =
     (if w < length (workers p) then
        (case workers p ! w of
           Awaiting my \<Rightarrow>
             (case mapper (items ! my) my of
                Inr v \<Rightarrow> settle (resume (length items) w (p\<lparr>out := (out p)[my := Some v]\<rparr>))
              | Inl e \<Rightarrow> reject e w p)
         | _ \<Rightarrow> p)
      else p)"

fun is_awaiting :: "'e worker \<Rightarrow> bool" where
  "is_awaiting (Awaiting my) = True"
| "is_awaiting w = False"

text \<open>The workers with a mapper call in flight, and their number.\<close>

definition awaiting :: "('e, 'b) pool \<Rightarrow> nat list" where
  "awaiting p = filter (\<lambda>w. is_awaiting (workers p ! w)) [0..<length (workers p)]"

definition in_flight :: "('e, 'b) pool \<Rightarrow> nat" where
  "in_flight p = length (filter is_awaiting (workers p))"

text \<open>
  The order in which the mapper calls settle is not the pool's to choose. A schedule is a
  list of numbers: each picks, among the calls in flight at that moment, the one that
  settles next. Every list is a schedule, and every order of completion is one.
\<close>

definition event ::
  "'a list \<Rightarrow> ('a \<Rightarrow> nat \<Rightarrow> 'e + 'b) \<Rightarrow> ('e, 'b) pool \<Rightarrow> nat \<Rightarrow> ('e, 'b) pool" where
  "event items mapper p pick =
     (case awaiting p of
        [] \<Rightarrow> p
      | w # ws \<Rightarrow> complete items mapper ((w # ws) ! (pick mod length (w # ws))) p)"

definition mapLimit_run ::
  "'a list \<Rightarrow> int \<Rightarrow> ('a \<Rightarrow> nat \<Rightarrow> 'e + 'b) \<Rightarrow> nat list \<Rightarrow> ('e, 'b) pool" where
  "mapLimit_run items limit mapper picks =
     foldl (event items mapper) (mapLimit_start items limit) picks"

text \<open>What each mapper call gives when it does not throw.\<close>

definition mapper_outputs :: "'a list \<Rightarrow> ('a \<Rightarrow> nat \<Rightarrow> 'e + 'b) \<Rightarrow> 'b list" where
  "mapper_outputs items mapper =
     map (\<lambda>i. case mapper (items ! i) i of Inr v \<Rightarrow> v) [0..<length items]"

definition never_throws :: "'a list \<Rightarrow> ('a \<Rightarrow> nat \<Rightarrow> 'e + 'b) \<Rightarrow> bool" where
  "never_throws items mapper = (\<forall>i < length items. \<not> isl (mapper (items ! i) i))"

section \<open>Fetching the variants of one product\<close>

text \<open>\<open>ctaFrom(product)\<close>: type, label, available, isNotifyMeActive.\<close>

definition ctaFrom :: "jsval \<Rightarrow> jsval \<times> jsval \<times> jsval \<times> jsval" where
  "ctaFrom product =
     (let available = truthy (get product (js ''available''));
          notify = truthy (get product (js ''isNotifyMeActive''));
          label = js_or (get (get product (js ''soldOutLabel'')) (js ''pdp''))
                        (Str (if available then js ''Add to Bag'' else js ''Notify Me''));
          type = Str (if available \<and> \<not> notify then js ''ADD_TO_BAG'' else js ''NOTIFY_ME'')
      in (type, label, Bool available, Bool notify))"

record price =
  sales :: jsval
  sales_formatted :: jsval
  list_value :: jsval
  list_formatted :: jsval
  discount_percent :: jsval
  currency :: jsval

definition pickPrice :: "jsval \<Rightarrow> price" where
  "pickPrice product =
     (let p = js_or (get product (js ''price'')) (Obj [])
      in \<lparr> sales = nullish (get (get p (js ''sales'')) (js ''value'')) Null,
           sales_formatted = nullish (get (get p (js ''sales'')) (js ''formatted'')) Null,
           list_value = nullish (get (get p (js ''list'')) (js ''value'')) Null,
           list_formatted = nullish (get (get p (js ''list'')) (js ''formatted'')) Null,
           discount_percent = nullish (get p (js ''discount'')) Null,
           currency = nullish (nullish (get (get p (js ''sales'')) (js ''currency''))
                                       (get (get p (js ''list'')) (js ''currency''))) Null \<rparr>)"


text \<open>
  What \<open>extractOneProduct\<close> has at hand when it builds the tasks. \<open>quantity\<close> is a number
  (the default 1, or \<open>Number(...)\<close> of the command line), kept as its text.
\<close>

record product_ctx =
  pid :: jsstring
  inputSku :: jsstring
  inputUrl :: jsstring
  productName :: jsval
  brand :: jsval
  site :: jsstring
  localeId :: jsstring
  quantity :: jsstring
  has_size_attribute :: bool

text \<open>
  \<open>variationUrl({ site, locale, pid, color, size, quantity })\<close>, kept as the parameters
  the URL is made of; \<open>String(quantity ?? 1)\<close> is the text of the number.
\<close>

record variation_request =
  req_site :: jsstring
  req_locale :: jsstring
  req_pid :: jsstring
  req_color :: jsstring
  req_size :: jsstring
  req_quantity :: jsstring

definition variationUrl ::
  "jsstring \<Rightarrow> jsstring \<Rightarrow> jsstring \<Rightarrow> jsstring \<Rightarrow> jsstring \<Rightarrow> jsstring \<Rightarrow> variation_request" where
  "variationUrl site' locale' pid' color' size' quantity' =
     \<lparr> req_site = site', req_locale = locale', req_pid = pid',
       req_color = color', req_size = size', req_quantity = quantity' \<rparr>"

definition size_id_or_NS :: "size_value \<Rightarrow> jsstring" where
  "size_id_or_NS sz = (if s_id sz \<noteq> [] then s_id sz else js ''NS'')"

text \<open>The URL of a task: \<open>color: color.id, size: size.id || "NS"\<close>.\<close>

definition task_url :: "product_ctx \<Rightarrow> color_value \<Rightarrow> size_value \<Rightarrow> variation_request" where
  "task_url ctx c sz =
     variationUrl (site ctx) (localeId ctx) (pid ctx) (c_id c) (size_id_or_NS sz) (quantity ctx)"

text \<open>The fields every row starts with, in the \<open>try\<close> and in the \<open>catch\<close>.\<close>

definition row_head :: "product_ctx \<Rightarrow> color_value \<Rightarrow> size_value \<Rightarrow> (jsstring \<times> jsval) list" where
  "row_head ctx c sz =
     [(js ''pid'', Str (pid ctx)),
      (js ''input_sku'', Str (inputSku ctx)),
      (js ''input_url'', Str (inputUrl ctx)),
      (js ''product_name'', productName ctx),
      (js ''brand'', brand ctx),
      (js ''site'', Str (site ctx)),
      (js ''locale'', Str (localeId ctx)),
      (js ''has_size_attribute'', Bool (has_size_attribute ctx)),
      (js ''color_id'', Str (c_id c)),
      (js ''color_name'', c_name c),
      (js ''swatch_url'', js_or (c_swatch_url c) (Str [])),
      (js ''size_id'', Str (size_id_or_NS sz)),
      (js ''size_label'', js_or (js_or (s_label sz) (Str (s_id sz))) (Str (js ''NS'')))]"

text \<open>
  The object the \<open>try\<close> returns for the response \<open>j\<close>. Of its fields only
  \<open>variant_sku: String(p?.selectedVariationProductId ?? p?.id ?? "")\<close> can throw; then
  there is no object (\<open>None\<close>).
\<close>

definition ok_row :: "product_ctx \<Rightarrow> color_value \<Rightarrow> size_value \<Rightarrow> jsval \<Rightarrow> jsval option" where
  "ok_row ctx c sz j =
     (let p = js_or (get j (js ''product'')) (Obj []);
          cta = ctaFrom p;
          price = pickPrice p
      in map_option
           (\<lambda>variant_sku.
              Obj ([(js ''ok'', Bool True)] @ row_head ctx c sz @
                [(js ''variant_sku'', Str variant_sku),
                 (js ''UPC'', nullish (get p (js ''UPC'')) (Str [])),
                 (js ''availableForInStorePickup'',
                    nullish (get p (js ''availableForInStorePickup'')) (Str [])),
                 (js ''selectedProductUrlNoQuantity'',
                    nullish (get p (js ''selectedProductUrlNoQuantity'')) (Str [])),
                 (js ''cta_type'', fst cta),
                 (js ''cta_label'', fst (snd cta)),
                 (js ''available'', fst (snd (snd cta))),
                 (js ''notify_me_active'', snd (snd (snd cta))),
                 (js ''sales_value'', nullish (sales price) (Str [])),
                 (js ''sales_formatted'', nullish (sales_formatted price) (Str [])),
                 (js ''list_value'', nullish (list_value price) (Str [])),
                 (js ''list_formatted'', nullish (list_formatted price) (Str [])),
                 (js ''discount_percent'', nullish (discount_percent price) (Str [])),
                 (js ''currency'', nullish (currency price) (Str [])),
                 (js ''error'', Str [])]))
           (js_String (nullish (nullish (get p (js ''selectedVariationProductId''))
                                        (get p (js ''id''))) (Str []))))"

definition error_row :: "product_ctx \<Rightarrow> color_value \<Rightarrow> size_value \<Rightarrow> jsstring \<Rightarrow> jsval" where
  "error_row ctx c sz msg =
     Obj ([(js ''ok'', Bool False)] @ row_head ctx c sz @
          map (\<lambda>k. (js k, Str []))
            [''variant_sku'', ''UPC'', ''availableForInStorePickup'',
             ''selectedProductUrlNoQuantity'', ''cta_type'', ''cta_label'', ''available'',
             ''notify_me_active'', ''sales_value'', ''sales_formatted'', ''list_value'',
             ''list_formatted'', ''discount_percent'', ''currency''] @
          [(js ''error'', Str msg)])"

text \<open>
  The mapper of the inner pool:
  \<^verbatim>\<open>
  async ({ color, size }) => {
    const url = variationUrl({ ..., color: color.id, size: size.id || "NS", quantity });
    try { const j = await fetchJson(url, ...); ...; return { ok: true, ..., error: "" }; }
    catch (e) { return { ok: false, ..., error: String(e?.message || e) }; }
  }
  \<close>
  \<open>fetched req i\<close> is what the \<open>fetchJson\<close> call of task \<open>i\<close> returns or throws. The
  \<open>catch\<close> receives what \<open>fetchJson\<close> threw or the \<open>TypeError\<close> of \<open>String\<close>, and
  \<open>err_text e\<close> is the text \<open>String(e?.message || e)\<close> of what it receives.
\<close>

definition variant_mapper ::
  "product_ctx \<Rightarrow> (variation_request \<Rightarrow> nat \<Rightarrow> 'e + jsval) \<Rightarrow> ('e thrown \<Rightarrow> jsstring)
     \<Rightarrow> color_value \<times> size_value \<Rightarrow> nat \<Rightarrow> 'e + jsval" where
  "variant_mapper ctx fetched err_text task i =
     (case task of (c, sz) \<Rightarrow>
        (case fetched (task_url ctx c sz) i of
           Inr j \<Rightarrow>
             (case ok_row ctx c sz j of
                Some row \<Rightarrow> Inr row
              | None \<Rightarrow> Inr (error_row ctx c sz (err_text TypeError)))
         | Inl e \<Rightarrow> Inr (error_row ctx c sz (err_text (Thrown e)))))"








text \<open>
  What follows \<open>results\<close> in \<open>extractOneProduct\<close>:
  \<^verbatim>\<open>
  const matrix = {};
  for (const row of results) {
    const cid = row.color_id;
    if (!matrix[cid])
      matrix[cid] = { color_id: cid, color_name: row.color_name,
                      swatch_url: row.swatch_url, sizes: {} };
    matrix[cid].sizes[row.size_id] = row;
  }
  return { ok: true, ..., matrix: Object.values(matrix), flatRows: results };
  \<close>
  \<open>matrix\<close> and each \<open>sizes\<close> are kept as the list of their own properties, in the
  order of their creation. \<open>matrix[cid]\<close> reads an own property or, failing that, one
  that every object inherits from \<open>Object.prototype\<close>: each of those holds a function
  (\<open>__proto__\<close>: the prototype itself), which is truthy and has no property \<open>sizes\<close>, so
  that the assignment to \<open>matrix[cid].sizes[...]\<close> throws a \<open>TypeError\<close>. A value used
  as a property name is converted as \<open>String\<close> converts it. Assigning to the name
  \<open>__proto__\<close> of \<open>sizes\<close> sets its prototype and makes no own property. The loop gives
  the final \<open>matrix\<close>, or \<open>None\<close> when it throws; then \<open>extractOneProduct\<close> throws.
\<close>

definition inherited_names :: "jsstring list" where
  "inherited_names = map js
     [''constructor'', ''__defineGetter__'', ''__defineSetter__'', ''hasOwnProperty'',
      ''__lookupGetter__'', ''__lookupSetter__'', ''isPrototypeOf'', ''propertyIsEnumerable'',
      ''toString'', ''valueOf'', ''__proto__'', ''toLocaleString'']"

record color_group =
  g_color_id :: jsval
  g_color_name :: jsval
  g_swatch_url :: jsval
  g_sizes :: "(jsstring \<times> jsval) list"

text \<open>\<open>obj[k] = v\<close> on the own properties of a plain object.\<close>

fun assign :: "(jsstring \<times> 'v) list \<Rightarrow> jsstring \<Rightarrow> 'v \<Rightarrow> (jsstring \<times> 'v) list" where
  "assign [] k v = [(k, v)]"
| "assign ((k', v') # ps) k v = (if k' = k then (k, v) # ps else (k', v') # assign ps k v)"

text \<open>One pass of the loop; a hole of \<open>results\<close> is \<open>None\<close>, and reads as \<open>undefined\<close>.\<close>

definition group_row ::
  "(jsstring \<times> color_group) list \<Rightarrow> jsval option \<Rightarrow> (jsstring \<times> color_group) list option" where
  "group_row matrix slot =
     (case slot of
        None \<Rightarrow> None
      | Some row \<Rightarrow>
          if row = Undefined \<or> row = Null then None
          else
            (case js_String (get row (js ''color_id'')) of
               None \<Rightarrow> None
             | Some cid \<Rightarrow>
                 (case (case map_of matrix cid of
                          Some g \<Rightarrow> Some g
                        | None \<Rightarrow>
                            if cid \<in> set inherited_names then None
                            else Some \<lparr> g_color_id = get row (js ''color_id''),
                                        g_color_name = get row (js ''color_name''),
                                        g_swatch_url = get row (js ''swatch_url''),
                                        g_sizes = [] \<rparr>) of
                    None \<Rightarrow> None
                  | Some g \<Rightarrow>
                      (case js_String (get row (js ''size_id'')) of
                         None \<Rightarrow> None
                       | Some sid \<Rightarrow>
                           Some (assign matrix cid
                                   (g\<lparr>g_sizes := (if sid = js ''__proto__'' then g_sizes g
                                                    else assign (g_sizes g) sid row)\<rparr>))))))"

fun group_rows ::
  "(jsstring \<times> color_group) list \<Rightarrow> jsval option list \<Rightarrow> (jsstring \<times> color_group) list option" where
  "group_rows matrix [] = Some matrix"
| "group_rows matrix (slot # slots) =
     (case group_row matrix slot of
        None \<Rightarrow> None
      | Some matrix' \<Rightarrow> group_rows matrix' slots)"

section \<open>Batch drivers\<close>

subsection \<open>The driver that saves product by product\<close>

record input_row =
  in_sku :: jsstring
  in_url :: jsstring

text \<open>
  A row of \<open>variantRows\<close>, as \<open>extractProduct\<close> makes it: every field is a string, but
  for the two prices, each a number (kept as its text) or \<open>null\<close>.
\<close>

record variant =
  v_sku :: jsstring
  v_url :: jsstring
  v_product_id :: jsstring
  v_brand :: jsstring
  v_product_name :: jsstring
  v_color_id :: jsstring
  v_color_name :: jsstring
  v_size_label :: jsstring
  v_selling_price :: "jsstring option"
  v_original_price :: "jsstring option"
  v_availability :: jsstring

text \<open>
  The two output files, each as the list of the lines appended to it
  (\<open>appendLine(filePath, line)\<close> appends \<open>line + "\n"\<close>).
\<close>

record sinks =
  jsonl :: "jsstring list"
  csv :: "jsstring list"

text \<open>
  The cells of the CSV line of a variant,
  \<open>[v.sku, v.url, v.product_id, v.brand, v.product_name, v.color_id, v.color_name,
  v.size_label, v.original_price, v.selling_price, v.availability]\<close>, and the line
  \<open>cells.map(csvEscape).join(",")\<close>. On a string, a number or \<open>null\<close> \<open>String\<close> does not
  throw, so the line is always made.
\<close>

definition price_cell :: "jsstring option \<Rightarrow> jsval" where
  "price_cell p = (case p of None \<Rightarrow> Null | Some t \<Rightarrow> Num t)"

definition variant_cells :: "variant \<Rightarrow> jsval list" where
  "variant_cells v =
     [Str (v_sku v), Str (v_url v), Str (v_product_id v), Str (v_brand v),
      Str (v_product_name v), Str (v_color_id v), Str (v_color_name v), Str (v_size_label v),
      price_cell (v_original_price v), price_cell (v_selling_price v), Str (v_availability v)]"

definition escape_price :: "jsstring option \<Rightarrow> jsstring" where
  "escape_price p = (case p of None \<Rightarrow> [] | Some t \<Rightarrow> escape_text t)"

definition variant_line :: "variant \<Rightarrow> jsstring" where
  "variant_line v =
     join_with [COMMA]
       [escape_text (v_sku v), escape_text (v_url v), escape_text (v_product_id v),
        escape_text (v_brand v), escape_text (v_product_name v), escape_text (v_color_id v),
        escape_text (v_color_name v), escape_text (v_size_label v),
        escape_price (v_original_price v), escape_price (v_selling_price v),
        escape_text (v_availability v)]"

text \<open>
  The body of the loop for the product at position \<open>i\<close>. \<open>extractProduct i row\<close> is what
  \<open>await extractProduct(page, row)\<close> returns (the summary and the variant rows) or
  throws; \<open>stringify\<close> is \<open>JSON.stringify\<close>, \<open>stamp i\<close> the text of
  \<open>new Date().toISOString()\<close> there.
  \<^verbatim>\<open>
  try {
    const { productSummary, variantRows } = await extractProduct(page, row);
    appendLine(jsonlOut, JSON.stringify(productSummary));
    for (const v of variantRows) { ... appendLine(csvOut, line); }
  } catch (e) {
    const errSummary = { sku: row.sku, url: row.url, error: String(e?.message || e),
                         extracted_at: new Date().toISOString() };
    appendLine(jsonlOut, JSON.stringify(errSummary));
  }
  \<close>
\<close>

definition errSummary :: "input_row \<Rightarrow> jsstring \<Rightarrow> jsstring \<Rightarrow> jsval" where
  "errSummary row msg at =
     Obj [(js ''sku'', Str (in_sku row)), (js ''url'', Str (in_url row)),
          (js ''error'', Str msg), (js ''extracted_at'', Str at)]"

definition save_product ::
  "(nat \<Rightarrow> input_row \<Rightarrow> 'e + jsval \<times> variant list) \<Rightarrow> ('e \<Rightarrow> jsstring)
     \<Rightarrow> (jsval \<Rightarrow> jsstring) \<Rightarrow> (nat \<Rightarrow> jsstring) \<Rightarrow> nat \<Rightarrow> input_row \<Rightarrow> sinks \<Rightarrow> sinks" where
  "save_product extractProduct err_text stringify stamp i row s =
     (case extractProduct i row of
        Inr (productSummary, variantRows) \<Rightarrow>
          foldl (\<lambda>s v. s\<lparr>csv := csv s @ [variant_line v]\<rparr>)
            (s\<lparr>jsonl := jsonl s @ [stringify productSummary]\<rparr>) variantRows
      | Inl e \<Rightarrow> s\<lparr>jsonl := jsonl s @ [stringify (errSummary row (err_text e) (stamp i))]\<rparr>)"

text \<open>
  \<open>for (let i = 0; i < inputRows.length; i++) { ... }\<close> as a machine: the state is the
  loop counter and the two files, a step is one pass through the body.
\<close>

definition batch_step ::
  "(nat \<Rightarrow> input_row \<Rightarrow> 'e + jsval \<times> variant list) \<Rightarrow> ('e \<Rightarrow> jsstring)
     \<Rightarrow> (jsval \<Rightarrow> jsstring) \<Rightarrow> (nat \<Rightarrow> jsstring) \<Rightarrow> input_row list
     \<Rightarrow> nat \<times> sinks \<Rightarrow> nat \<times> sinks" where
  "batch_step extractProduct err_text stringify stamp inputRows st =
     (case st of (i, s) \<Rightarrow>
        if i < length inputRows
        then (i + 1, save_product extractProduct err_text stringify stamp i (inputRows ! i) s)
        else (i, s))"

text \<open>The files after \<open>k\<close> passes, from the files \<open>s0\<close> the loop found.\<close>

definition batch_after ::
  "(nat \<Rightarrow> input_row \<Rightarrow> 'e + jsval \<times> variant list) \<Rightarrow> ('e \<Rightarrow> jsstring)
     \<Rightarrow> (jsval \<Rightarrow> jsstring) \<Rightarrow> (nat \<Rightarrow> jsstring) \<Rightarrow> input_row list \<Rightarrow> sinks
     \<Rightarrow> nat \<Rightarrow> sinks" where
  "batch_after extractProduct err_text stringify stamp inputRows s0 k =
     snd ((batch_step extractProduct err_text stringify stamp inputRows ^^ k) (0, s0))"

text \<open>What one product contributes to each file.\<close>

definition summary_line ::
  "(nat \<Rightarrow> input_row \<Rightarrow> 'e + jsval \<times> variant list) \<Rightarrow> ('e \<Rightarrow> jsstring)
     \<Rightarrow> (jsval \<Rightarrow> jsstring) \<Rightarrow> (nat \<Rightarrow> jsstring) \<Rightarrow> input_row list \<Rightarrow> nat \<Rightarrow> jsstring" where
  "summary_line extractProduct err_text stringify stamp inputRows i =
     (case extractProduct i (inputRows ! i) of
        Inr (productSummary, variantRows) \<Rightarrow> stringify productSummary
      | Inl e \<Rightarrow> stringify (errSummary (inputRows ! i) (err_text e) (stamp i)))"

definition variant_lines ::
  "(nat \<Rightarrow> input_row \<Rightarrow> 'e + jsval \<times> variant list) \<Rightarrow> input_row list \<Rightarrow> nat \<Rightarrow> jsstring list" where
  "variant_lines extractProduct inputRows i =
     (case extractProduct i (inputRows ! i) of
        Inr (productSummary, variantRows) \<Rightarrow> map variant_line variantRows
      | Inl e \<Rightarrow> [])"

subsection \<open>The driver that writes one combined JSON and one combined CSV\<close>

record job =
  job_sku :: jsstring
  job_url :: jsstring
  job_pid :: jsstring

text \<open>
  The mapper of the outer pool: \<open>extractOne i job\<close> is what
  \<open>await extractOneProduct({...})\<close> returns or throws for the job at position \<open>i\<close>.
  \<^verbatim>\<open>
  async (job) => {
    try { const one = await extractOneProduct({...}); return one; }
    catch (e) { return { ok: false, pid: job.pid, input_sku: job.inputSku,
                         input_url: job.inputUrl, error: String(e?.message || e) }; }
  }
  \<close>
\<close>

definition product_mapper ::
  "(nat \<Rightarrow> job \<Rightarrow> 'e + jsval) \<Rightarrow> ('e \<Rightarrow> jsstring) \<Rightarrow> job \<Rightarrow> nat \<Rightarrow> 'x + jsval" where
  "product_mapper extractOne err_text j i =
     (case extractOne i j of
        Inr one \<Rightarrow> Inr one
      | Inl e \<Rightarrow>
          Inr (Obj [(js ''ok'', Bool False), (js ''pid'', Str (job_pid j)),
                    (js ''input_sku'', Str (job_sku j)), (js ''input_url'', Str (job_url j)),
                    (js ''error'', Str (err_text e))]))"

definition bulk_headers :: "jsstring list" where
  "bulk_headers = map js
     [''input_sku'', ''input_url'', ''pid'', ''product_name'', ''brand'', ''site'', ''locale'',
      ''has_size_attribute'', ''color_id'', ''color_name'', ''swatch_url'', ''size_id'',
      ''size_label'', ''variant_sku'', ''UPC'', ''availableForInStorePickup'',
      ''selectedProductUrlNoQuantity'', ''cta_type'', ''cta_label'', ''available'',
      ''notify_me_active'', ''sales_value'', ''sales_formatted'', ''list_value'',
      ''list_formatted'', ''discount_percent'', ''currency'', ''error'']"

text \<open>
  \<^verbatim>\<open>
  const lines = [headers.join(",")];
  for (const r of flatRows) {
    const row = headers.map((h) => csvEscape(r[h]));
    lines.push(row.join(","));
  }
  return lines.join("\n");
  \<close>
  \<open>r[h]\<close> throws a \<open>TypeError\<close> on a row that is \<open>null\<close> or \<open>undefined\<close>, and
  \<open>csvEscape\<close> may throw: then \<open>buildBulkCSV\<close> throws (\<open>None\<close>).
\<close>

definition buildBulkCSV :: "jsval list \<Rightarrow> jsstring option" where
  "buildBulkCSV flatRows =
     map_option (\<lambda>rows. join_with [LF] (join_with [COMMA] bulk_headers # rows))
       (those (map (\<lambda>r. if r = Undefined \<or> r = Null then None
                         else csv_line (map (\<lambda>h. get r h) bulk_headers)) flatRows))"

text \<open>
  \<open>for (const p of processed) { bulk.push(p); if (p?.flatRows?.length)
  bulkFlatRows.push(...p.flatRows); }\<close> (\<open>flatRows\<close>, where a result has it, is the array
  the inner pool returned).
\<close>

definition bulkFlatRows :: "jsval list \<Rightarrow> jsval list" where
  "bulkFlatRows processed = concat (map (\<lambda>p. elements (get p (js ''flatRows''))) processed)"

text \<open>
  The two files of the combined driver, \<open>None\<close> while not written. \<open>main\<close> awaits the pool
  over all jobs and only then writes \<open>bulk.json\<close> and \<open>bulk.csv\<close>, each with one
  \<open>writeFileSync\<close>. \<open>bulk_files ... picks\<close> are the files once the product extractions
  have settled in the order \<open>picks\<close>. When the pool rejects, \<open>main\<close> ends with neither
  file written; when \<open>buildBulkCSV\<close> throws, it ends with \<open>bulk.json\<close> written and
  \<open>bulk.csv\<close> not.
\<close>

record files =
  json_file :: "jsstring option"
  csv_file :: "jsstring option"

definition bulk_files ::
  "(nat \<Rightarrow> job \<Rightarrow> 'e + jsval) \<Rightarrow> ('e \<Rightarrow> jsstring) \<Rightarrow> (jsval \<Rightarrow> jsstring) \<Rightarrow> jsstring
     \<Rightarrow> job list \<Rightarrow> int \<Rightarrow> nat list \<Rightarrow> files" where
  "bulk_files extractOne err_text stringify at validJobs productConcurrency picks =
     (case settled (mapLimit_run validJobs productConcurrency
                      (product_mapper extractOne err_text :: job \<Rightarrow> nat \<Rightarrow> unit + jsval) picks) of
        Some (Inr processed) \<Rightarrow>
          (let bulk = map (\<lambda>p. case p of Some v \<Rightarrow> v | None \<Rightarrow> Undefined) processed
           in \<lparr> json_file = Some (stringify (Obj [(js ''extracted_at'', Str at),
                                                  (js ''products'', Arr bulk)])),
                csv_file = buildBulkCSV (bulkFlatRows bulk) \<rparr>)
      | _ \<Rightarrow> \<lparr> json_file = None, csv_file = None \<rparr>)"

text \<open>The products of the combined driver that have settled so far.\<close>

definition bulk_settled ::
  "(nat \<Rightarrow> job \<Rightarrow> 'e + jsval) \<Rightarrow> ('e \<Rightarrow> jsstring) \<Rightarrow> job list \<Rightarrow> int \<Rightarrow> nat list
     \<Rightarrow> jsval option list" where
  "bulk_settled extractOne err_text validJobs productConcurrency picks =
     out (mapLimit_run validJobs productConcurrency
            (product_mapper extractOne err_text :: job \<Rightarrow> nat \<Rightarrow> unit + jsval) picks)"

section \<open>Notions the properties are stated with\<close>

text \<open>The attributes a base product declares, and the size values among them.\<close>

definition declared_attributes :: "jsval \<Rightarrow> jsval list" where
  "declared_attributes product = elements (get product (js ''variationAttributes''))"

definition declared_size_values :: "jsval \<Rightarrow> jsval list" where
  "declared_size_values product =
     elements (get (js_find (attr_is ''size'') (declared_attributes product)) (js ''values''))"

text \<open>The color values \<open>extractVariationAttributes\<close> converts: those not marked unselectable.\<close>

definition declared_color_values :: "jsval \<Rightarrow> jsval list" where
  "declared_color_values product =
     filter selectable
       (elements (get (js_find (attr_is ''color'') (declared_attributes product)) (js ''values'')))"

text \<open>
  A base product with two colors and no size attribute, and one whose only color value
  has for \<open>value\<close> an object with a property \<open>toString\<close>.
\<close>

definition bag :: jsval where
  "bag = Obj [(js ''variationAttributes'',
            Arr [Obj [(js ''id'', Str (js ''color'')),
                      (js ''values'', Arr [Obj [(js ''value'', Str (js ''0001''))],
                                           Obj [(js ''value'', Str (js ''0002''))]])]])]"

definition odd_bag :: jsval where
  "odd_bag = Obj [(js ''variationAttributes'',
                Arr [Obj [(js ''id'', Str (js ''color'')),
                          (js ''values'',
                             Arr [Obj [(js ''value'', Obj [(js ''toString'', Str (js ''x''))])]])]])]"

text \<open>
  The state of the retry loop on entry to iteration \<open>attempt\<close>, and what one
  \<open>fetchJson\<close> call leaves behind, in terms of the record the world keeps.
\<close>

definition loop_entry :: "fetch_config \<Rightarrow> nat \<Rightarrow> fetch_error option \<Rightarrow> world \<Rightarrow> bool" where
  "loop_entry cfg attempt lastErr w =
     (attempt \<le> nat (retries cfg) + 1
      \<and> calls w = attempt \<and> length (attempts w) = attempt
      \<and> waits w = map (\<lambda>a. retryDelayMs cfg * a) [1..<Suc (min attempt (nat (retries cfg)))]
      \<and> (\<forall>k < attempt. isl (outcomes w ! k))
      \<and> (0 < attempt \<longrightarrow> (\<exists>e. lastErr = Some e \<and> outcomes w ! (attempt - 1) = Inl e)))"

definition loop_exit :: "fetch_config \<Rightarrow> (fetch_error option + jsval) \<times> world \<Rightarrow> bool" where
  "loop_exit cfg rw =
     (case rw of (res, w) \<Rightarrow>
        calls w = length (attempts w)
        \<and> waits w = map (\<lambda>a. retryDelayMs cfg * a) [1..<calls w]
        \<and> 1 \<le> calls w \<and> calls w \<le> nat (retries cfg) + 1
        \<and> (\<forall>k < calls w - 1. isl (outcomes w ! k))
        \<and> (case res of
              Inr j \<Rightarrow> outcomes w ! (calls w - 1) = Inr j
            | Inl lastErr \<Rightarrow>
                calls w = nat (retries cfg) + 1
                \<and> (\<exists>e. lastErr = Some e \<and> outcomes w ! nat (retries cfg) = Inl e)))"

text \<open>
  The clock of the retry loop on entry to iteration \<open>attempt\<close>: every attempt but the
  first started when the timer of the sleep before it was due, and the clock stands where
  the sleep after the last attempt has left it.
\<close>

definition spaced :: "fetch_config \<Rightarrow> world \<Rightarrow> bool" where
  "spaced cfg w =
     (\<forall>k. k + 1 < length (attempts w)
        \<longrightarrow> started w (k + 1) = ended w k + timer_delay (retryDelayMs cfg * (k + 1)))"

definition loop_clock :: "fetch_config \<Rightarrow> nat \<Rightarrow> world \<Rightarrow> bool" where
  "loop_clock cfg attempt w =
     (spaced cfg w \<and> length (attempts w) = attempt
      \<and> (0 < attempt \<longrightarrow>
            now w = ended w (attempt - 1)
                    + (if int attempt \<le> retries cfg
                       then timer_delay (retryDelayMs cfg * attempt) else 0)))"

text \<open>
  The one abort timer of a call, firing at \<open>d\<close>: pending until the clock reaches \<open>d\<close>,
  fired from then on; and what it does to the attempts.
\<close>

definition timer_state :: "nat \<Rightarrow> world \<Rightarrow> bool" where
  "timer_state d w =
     ((aborted w \<longrightarrow> timer w = None \<and> d \<le> now w)
      \<and> (\<not> aborted w \<longrightarrow> timer w = Some d \<and> now w \<le> d))"

definition under_deadline :: "nat \<Rightarrow> (nat \<times> nat \<times> (fetch_error + jsval)) list \<Rightarrow> bool" where
  "under_deadline d as =
     list_all (\<lambda>a. case a of (s, e, r) \<Rightarrow>
                 s \<le> e \<and> e \<le> max s d \<and> (d < s \<longrightarrow> e = s \<and> r = Inl AbortError)) as"

text \<open>
  Remote sides, and a configuration with one retry. \<open>garbled_then_json\<close> answers the
  first request with status 200 and a body that is not JSON, the second with status 200
  and the JSON \<open>null\<close>. \<open>slow_then_fast\<close> takes 500 ms over the first request and 5 ms
  over the second.
\<close>

definition one_retry :: fetch_config where
  "one_retry = \<lparr> timeoutMs = 100, retries = 1, retryDelayMs = 10 \<rparr>"

text \<open>The same with a base delay of \<open>2^31\<close> ms, one more than a timer takes.\<close>

definition long_delay :: fetch_config where
  "long_delay = \<lparr> timeoutMs = 100, retries = 1, retryDelayMs = 2147483648 \<rparr>"

text \<open>A call with \<open>timeoutMs = 0\<close> and no retry, and a remote side that answers in 1 ms.\<close>

definition zero_timeout :: fetch_config where
  "zero_timeout = \<lparr> timeoutMs = 0, retries = 0, retryDelayMs = 800 \<rparr>"

definition quick :: network where
  "quick k = (1, 0, Response 200 (Some Null))"

definition garbled_then_json :: network where
  "garbled_then_json k = (if k = 0 then (1, 1, Response 200 None) else (1, 1, Response 200 (Some Null)))"

definition slow_then_fast :: network where
  "slow_then_fast k = (if k = 0 then (500, 0, Response 200 (Some Null)) else (2, 3, Response 200 (Some Null)))"

definition always_down :: network where
  "always_down k = (1, 0, Unreachable)"

definition down_then_up :: network where
  "down_then_up k = (if k = 0 then (1, 0, Unreachable) else (1, 1, Response 200 (Some Null)))"

text \<open>
  The pool while no mapper call has thrown. Every worker either awaits the call for an
  index that was handed out and whose slot is still a hole, or has returned, which it
  does only once the indices are used up; no two workers await the same index; every
  index handed out is in flight or holds the output of its own mapper call; the slots of
  the indices not yet handed out are holes; and the promise is fulfilled, with \<open>out\<close>,
  exactly when every worker has returned.
\<close>

definition pool_inv :: "'a list \<Rightarrow> ('a \<Rightarrow> nat \<Rightarrow> 'e + 'b) \<Rightarrow> nat \<Rightarrow> ('e, 'b) pool \<Rightarrow> bool" where
  "pool_inv items mapper k p =
     (length (out p) = length items \<and> length (workers p) = k
      \<and> (\<forall>w < k. case workers p ! w of
             Awaiting i \<Rightarrow> i < length items \<and> i < idx p \<and> out p ! i = None
           | Returned \<Rightarrow> length items < idx p
           | Threw e \<Rightarrow> False)
      \<and> (\<forall>w < k. \<forall>v < k. \<forall>i. workers p ! w = Awaiting i \<and> workers p ! v = Awaiting i \<longrightarrow> w = v)
      \<and> (\<forall>i < length items. i < idx p \<longrightarrow>
             out p ! i = Some (mapper_outputs items mapper ! i)
             \<or> (\<exists>w < k. workers p ! w = Awaiting i))
      \<and> (\<forall>i < length items. idx p \<le> i \<longrightarrow> out p ! i = None)
      \<and> settled p = (if all_returned p then Some (Inr (out p)) else None))"

text \<open>The mapper calls still to settle: those not yet started and those in flight.\<close>

definition pending :: "nat \<Rightarrow> ('e, 'b) pool \<Rightarrow> nat" where
  "pending n p = (n - min (idx p) n) + in_flight p"

text \<open>A mapper that throws on the first item, for a pool over two items.\<close>

definition fails_first :: "nat \<Rightarrow> nat \<Rightarrow> unit + nat" where
  "fails_first x i = (if i = 0 then Inl () else Inr x)"

definition doubles :: "nat \<Rightarrow> nat \<Rightarrow> unit + nat" where
  "doubles x i = Inr (2 * x)"












definition demo_jobs :: "job list" where
  "demo_jobs = [\<lparr> job_sku = js ''a'', job_url = js ''u1'', job_pid = js ''P1'' \<rparr>,
                \<lparr> job_sku = js ''b'', job_url = js ''u2'', job_pid = js ''P2'' \<rparr>]"

definition demo_extractOne :: "nat \<Rightarrow> job \<Rightarrow> unit + jsval" where
  "demo_extractOne i j =
     Inr (Obj [(js ''ok'', Bool True),
               (js ''flatRows'', Arr [Obj [(js ''pid'', Str (job_pid j))]])])"

definition demo_rows :: "input_row list" where
  "demo_rows = [\<lparr> in_sku = js ''a'', in_url = js ''u1'' \<rparr>,
                \<lparr> in_sku = js ''b'', in_url = js ''u2'' \<rparr>,
                \<lparr> in_sku = js ''c'', in_url = js ''u3'' \<rparr>]"

definition demo_variant :: "jsstring \<Rightarrow> variant" where
  "demo_variant sku =
     \<lparr> v_sku = sku, v_url = js ''u'', v_product_id = js ''1'',
       v_brand = js ''b'', v_product_name = js ''n'', v_color_id = js ''7'',
       v_color_name = js ''Red'', v_size_label = js ''NS'',
       v_selling_price = Some (js ''10''), v_original_price = None,
       v_availability = js ''IN STOCK'' \<rparr>"

definition demo_extractProduct :: "nat \<Rightarrow> input_row \<Rightarrow> unit + jsval \<times> variant list" where
  "demo_extractProduct i row =
     (if i = 1 then Inl ()
      else Inr (Obj [(js ''sku'', Str (in_sku row))], [demo_variant (in_sku row)]))"

definition demo_stringify :: "jsval \<Rightarrow> jsstring" where
  "demo_stringify v = js ''json of '' @ (case get v (js ''sku'') of Str t \<Rightarrow> t | _ \<Rightarrow> [])"

definition no_text :: "unit \<Rightarrow> jsstring" where
  "no_text e = js ''failed''"

definition no_stamp :: "nat \<Rightarrow> jsstring" where
  "no_stamp i = js ''2026-01-01T00:00:00.000Z''"

definition empty_sinks :: sinks where
  "empty_sinks = \<lparr> jsonl = [], csv = [js ''sku,url,product_id,brand,product_name,color_id,color_name,size_label,original_price,selling_price,availability''] \<rparr>"

section \<open>CSV round trip\<close>

lemma quote_not_comma: "DQUOTE \<noteq> COMMA" "COMMA \<noteq> DQUOTE"
  by (simp_all add: DQUOTE_def COMMA_def)

lemma split_plain:
  "DQUOTE \<notin> set f \<Longrightarrow> COMMA \<notin> set f \<Longrightarrow>
   splitCSVLine_loop (f @ rest) acc cur False = splitCSVLine_loop rest acc (cur @ f) False"
  by (induction f arbitrary: cur) auto

lemma split_opening:
  "splitCSVLine_loop (DQUOTE # xs) acc cur False = splitCSVLine_loop xs acc cur True"
  by (cases xs) auto

lemma split_quoted_body:
  "splitCSVLine_loop (double_quotes f @ DQUOTE # rest) acc cur True =
   splitCSVLine_loop (DQUOTE # rest) acc (cur @ f) True"
proof (induction f arbitrary: cur)
  case Nil
  show ?case by simp
next
  case (Cons c cs)
  show ?case
  proof (cases "c = DQUOTE")
    case True
    then show ?thesis using Cons.IH [of "cur @ [DQUOTE]"] by simp
  next
    case False
    then show ?thesis using Cons.IH [of "cur @ [c]"] by simp
  qed
qed

lemma split_closing:
  "rest = [] \<or> hd rest = COMMA \<Longrightarrow>
   splitCSVLine_loop (DQUOTE # rest) acc cur True = splitCSVLine_loop rest acc cur False"
  by (cases rest) (auto simp: quote_not_comma)

lemma split_field:
  assumes "rest = [] \<or> hd rest = COMMA"
  shows "splitCSVLine_loop (escape_text f @ rest) acc cur False =
         splitCSVLine_loop rest acc (cur @ f) False"
proof (cases "needs_quoting f")
  case True
  then have "escape_text f @ rest = DQUOTE # (double_quotes f @ DQUOTE # rest)"
    by (simp add: escape_text_def)
  then show ?thesis
    using assms by (simp only: split_opening split_quoted_body split_closing)
next
  case False
  then have "DQUOTE \<notin> set f" "COMMA \<notin> set f" "escape_text f = f"
    by (auto simp: needs_quoting_def escape_text_def)
  then show ?thesis by (simp add: split_plain)
qed

lemma split_fields:
  "fs \<noteq> [] \<Longrightarrow>
   splitCSVLine_loop (join_with [COMMA] (map escape_text fs)) acc [] False = acc @ fs"
proof (induction fs arbitrary: acc rule: induct_list012)
  case 1
  then show ?case by simp
next
  case (2 x)
  show ?case using split_field [of "[]" x acc "[]"] by simp
next
  case (3 x y zs)
  let ?tl = "join_with [COMMA] (map escape_text (y # zs))"
  have "splitCSVLine_loop (escape_text x @ COMMA # ?tl) acc [] False
      = splitCSVLine_loop (COMMA # ?tl) acc x False"
    using split_field [of "COMMA # ?tl" x acc "[]"] by simp
  also have "\<dots> = splitCSVLine_loop ?tl (acc @ [x]) [] False"
    by (simp add: quote_not_comma)
  also have "\<dots> = (acc @ [x]) @ (y # zs)"
    using "3.IH"(2) [of "acc @ [x]"] by simp
  finally show ?case by simp
qed

lemma those_map_Some: "those (map (\<lambda>x. Some (f x)) xs) = Some (map f xs)"
  by (induction xs) simp_all

lemma csvEscape_Str: "csvEscape (Str f) = Some (escape_text f)"
  by (simp add: csvEscape_def)

lemma csv_line_strings: "csv_line (map Str fs) = Some (join_with [COMMA] (map escape_text fs))"
  by (simp add: csv_line_def comp_def csvEscape_Str those_map_Some)

lemma split_csv_line:
  "fs \<noteq> [] \<Longrightarrow> map_option splitCSVLine (csv_line (map Str fs)) = Some fs"
  using split_fields [of fs "[]"] by (simp add: splitCSVLine_def csv_line_strings)

text \<open>
  C10, as stated, fails on the empty list of fields: its join is the empty line, which
  \<open>splitCSVLine\<close> reads as one empty field.
\<close>

theorem C10_empty_row_counterexample:
  "map_option splitCSVLine (csv_line (map Str [])) = Some [[]]
   \<and> map_option splitCSVLine (csv_line (map Str [])) \<noteq> Some []"
  by (simp add: splitCSVLine_def csv_line_def)

text \<open>
  C10 (amended): for every non-empty list of field strings containing no newline
  characters, the comma-join of their \<open>csvEscape\<close> images is made (nothing throws) and
  \<open>splitCSVLine\<close> applied to it gives back the list; a field with a comma or a quote is
  wrapped in quotes with its quotes doubled; \<open>csvEscape\<close> maps \<open>null\<close> and \<open>undefined\<close>
  to the empty string.
\<close>

theorem C10_csv_round_trip:
  "(fs \<noteq> [] \<and> (\<forall>f \<in> set fs. LF \<notin> set f \<and> CR \<notin> set f)
      \<longrightarrow> map_option splitCSVLine (csv_line (map Str fs)) = Some fs)
   \<and> (DQUOTE \<in> set f \<or> COMMA \<in> set f
      \<longrightarrow> csvEscape (Str f) = Some ([DQUOTE] @ double_quotes f @ [DQUOTE]))
   \<and> csvEscape Null = Some [] \<and> csvEscape Undefined = Some []"
  by (auto simp: split_csv_line csvEscape_def escape_text_def needs_quoting_def)

theorem C10_csv_round_trip_witness:
  "[[97, 44, 98], [], [120, 34, 34, 121]] \<noteq> ([] :: jsstring list)
   \<and> LF \<notin> set [97, 44, 98, 120, 34, 34, 121] \<and> CR \<notin> set [97, 44, 98, 120, 34, 34, 121]
   \<and> map_option splitCSVLine (csv_line (map Str [[97, 44, 98], [], [120, 34, 34, 121]]))
       = Some [[97, 44, 98], [], [120, 34, 34, 121]]
   \<and> COMMA \<in> set [97, 44, 98]
   \<and> csvEscape (Str [97, 44, 98]) = Some ([DQUOTE] @ double_quotes [97, 44, 98] @ [DQUOTE])"
  using C10_csv_round_trip [of "[[97, 44, 98], [], [120, 34, 34, 121]]" "[97, 44, 98]"]
  by (simp add: LF_def CR_def COMMA_def)

section \<open>Combination generator: properties\<close>

lemma inner_push: "foldl (\<lambda>tasks s. tasks @ [(c, s)]) acc ss = acc @ map (Pair c) ss"
  by (induction ss arbitrary: acc) simp_all

lemma outer_push:
  "foldl (\<lambda>tasks c. foldl (\<lambda>tasks s. tasks @ [(c, s)]) tasks ss) acc cs = acc @ List.product cs ss"
  by (induction cs arbitrary: acc) (simp_all add: inner_push)

lemma make_tasks_product: "make_tasks cs ss = List.product cs ss"
  by (simp add: make_tasks_def outer_push)

lemma make_tasks_nth:
  assumes "i < length cs" "j < length ss"
  shows "make_tasks cs ss ! (i * length ss + j) = (cs ! i, ss ! j)"
proof -
  have "i * length ss + j < length cs * length ss"
  proof -
    have "i * length ss + j < (i + 1) * length ss" using assms(2) by simp
    also have "\<dots> \<le> length cs * length ss" using assms(1) by (intro mult_le_mono1) simp
    finally show ?thesis .
  qed
  moreover have "(i * length ss + j) div length ss = i" "(i * length ss + j) mod length ss = j"
  proof -
    have "length ss \<noteq> 0" using assms(2) by auto
    then show "(i * length ss + j) div length ss = i" "(i * length ss + j) mod length ss = j"
      using assms(2) by simp_all
  qed
  ultimately show ?thesis by (simp add: make_tasks_product product_nth)
qed

lemma spec_combinations_two:
  "spec_combinations [xs, ys] = map (\<lambda>(x, y). [x, y]) (List.product xs ys)"
  by (induction xs) (simp_all add: comp_def)

text \<open>
  C3: the generator enumerates the full cartesian product of the color and size values,
  the first dimension varying slowest: the tasks are the product list, their number is
  the product of the value counts, the task at position \<open>i * |sizes| + j\<close> pairs color
  \<open>i\<close> with size \<open>j\<close>, the tasks are the specification's combinations of the two
  dimensions, and colors A, B with sizes S, M give (A,S), (A,M), (B,S), (B,M).
\<close>

theorem C3_generator:
  "make_tasks cs ss = List.product cs ss
   \<and> length (make_tasks cs ss) = length cs * length ss
   \<and> (\<forall>i < length cs. \<forall>j < length ss. make_tasks cs ss ! (i * length ss + j) = (cs ! i, ss ! j))
   \<and> map (\<lambda>(c, s). [f c, g s]) (make_tasks cs ss) = spec_combinations [map f cs, map g ss]
   \<and> make_tasks [A, B] [S, M] = [(A, S), (A, M), (B, S), (B, M)]"
proof -
  have "map (\<lambda>(c, s). [f c, g s]) (make_tasks cs ss) = spec_combinations [map f cs, map g ss]"
    unfolding make_tasks_product spec_combinations_two
    by (induction cs) (simp_all add: comp_def)
  moreover have "make_tasks [A, B] [S, M] = [(A, S), (A, M), (B, S), (B, M)]"
    by (simp add: make_tasks_def)
  ultimately show ?thesis
    by (simp add: make_tasks_nth) (simp add: make_tasks_product)
qed

theorem C3_generator_witness:
  "make_tasks [js ''A'', js ''B''] [js ''S'', js ''M'', js ''L''] ! (1 * 3 + 2) = (js ''B'', js ''L'')
   \<and> length (make_tasks [js ''A'', js ''B''] [js ''S'', js ''M'', js ''L'']) = 2 * 3"
proof -
  let ?cs = "[js ''A'', js ''B'']" and ?ss = "[js ''S'', js ''M'', js ''L'']"
  note g = C3_generator [of ?cs ?ss id id]
  have "make_tasks ?cs ?ss ! (1 * length ?ss + 2) = (?cs ! 1, ?ss ! 2)"
    using g [THEN conjunct2, THEN conjunct2, THEN conjunct1, rule_format, of 1 2] by simp
  moreover have "length (make_tasks ?cs ?ss) = length ?cs * length ?ss"
    using g [THEN conjunct2, THEN conjunct1] .
  ultimately show ?thesis by (simp add: eval_nat_numeral)
qed

section \<open>Placeholder size\<close>

lemma find_none: "\<forall>a \<in> set xs. \<not> p a \<Longrightarrow> js_find p xs = Undefined"
  by (induction xs) simp_all

lemma no_size_attr_no_values:
  "\<forall>a \<in> set (declared_attributes product). \<not> attr_is ''size'' a \<Longrightarrow> declared_size_values product = []"
  by (simp add: declared_size_values_def find_none)

lemma elements_isArray: "isArray v \<Longrightarrow> elements v = [] \<longleftrightarrow> length (elements v) = 0"
  by simp

lemma attrs_eq:
  "(if isArray (get product (js ''variationAttributes''))
    then elements (get product (js ''variationAttributes'')) else []) = declared_attributes product"
  by (cases "get product (js ''variationAttributes'')") (simp_all add: declared_attributes_def)

lemma those_None_iff: "those xs = None \<longleftrightarrow> None \<in> set xs"
  by (induction xs) (auto split: option.splits)

lemma those_map_None_iff: "those (map f xs) = None \<longleftrightarrow> (\<exists>x \<in> set xs. f x = None)"
  by (induction xs) (auto split: option.splits)

lemma mk_color_None: "mk_color v = None \<longleftrightarrow> value_id v = None"
  by (simp add: mk_color_def)

lemma color_values_eq:
  "filter selectable
     (elements (get (js_find (attr_is ''color'') (declared_attributes product)) (js ''values'')))
   = declared_color_values product"
  by (simp add: declared_color_values_def)

lemma no_size_values:
  assumes "declared_size_values product = []"
  shows "extractVariationAttributes product = None
           \<longleftrightarrow> (\<exists>v \<in> set (declared_color_values product). value_id v = None)"
    and "extractVariationAttributes product = Some va
           \<Longrightarrow> sizes va = [NS_size] \<and> \<not> hasSizeAttribute va"
proof -
  let ?vs = "get (js_find (attr_is ''color'') (declared_attributes product)) (js ''values'')"
  have no: "\<not> (isArray (get (js_find (attr_is ''size'') (declared_attributes product)) (js ''values''))
              \<and> length (elements (get (js_find (attr_is ''size'') (declared_attributes product))
                                       (js ''values''))) \<noteq> 0)"
    using assms by (simp add: declared_size_values_def)
  have arr: "\<not> isArray ?vs \<Longrightarrow> declared_color_values product = []"
    by (cases ?vs) (simp_all add: declared_color_values_def)
  let ?cs = "if isArray ?vs
             then map_option (filter (\<lambda>c. c_id c \<noteq> []))
                    (those (map mk_color (declared_color_values product)))
             else Some []"
  have cs: "?cs = None \<longleftrightarrow> (\<exists>v \<in> set (declared_color_values product). value_id v = None)"
    using arr by (simp add: those_map_None_iff mk_color_None)
  have "extractVariationAttributes product = None \<longleftrightarrow> ?cs = None"
    using no
    by (simp add: extractVariationAttributes_def Let_def attrs_eq color_values_eq
          split: option.splits)
  then show "extractVariationAttributes product = None
           \<longleftrightarrow> (\<exists>v \<in> set (declared_color_values product). value_id v = None)"
    using cs by simp
  show "extractVariationAttributes product = Some va
           \<Longrightarrow> sizes va = [NS_size] \<and> \<not> hasSizeAttribute va"
    using no
    by (auto simp: extractVariationAttributes_def Let_def attrs_eq split: option.splits if_splits)
qed

lemma tasks_single_size: "make_tasks cs [s] = map (\<lambda>c. (c, s)) cs"
  by (induction cs) (simp_all add: make_tasks_product)

lemma odd_bag_no_size: "\<forall>a \<in> set (declared_attributes odd_bag). \<not> attr_is ''size'' a"
  by (simp add: odd_bag_def declared_attributes_def attr_is_def js_or_def js_def)

text \<open>
  C8, as stated, fails on a product without a size attribute whose color value has for
  \<open>value\<close> an object with a property \<open>toString\<close>: \<open>String\<close> throws on it, so
  \<open>extractVariationAttributes\<close> throws and gives no sizes at all.
\<close>

theorem C8_unconvertible_color_counterexample:
  "list_all (\<lambda>a. \<not> attr_is ''size'' a) (declared_attributes odd_bag)
   \<and> declared_size_values odd_bag = []
   \<and> extractVariationAttributes odd_bag = None"
proof -
  have "list_all (\<lambda>a. \<not> attr_is ''size'' a) (declared_attributes odd_bag)"
    using odd_bag_no_size by (simp add: list_all_iff)
  moreover have d: "declared_size_values odd_bag = []"
    using odd_bag_no_size by (rule no_size_attr_no_values)
  moreover have "\<exists>v \<in> set (declared_color_values odd_bag). value_id v = None"
    by (simp add: odd_bag_def declared_color_values_def declared_attributes_def attr_is_def
          js_or_def js_def selectable_def value_id_def nullish_def)
  then have "extractVariationAttributes odd_bag = None"
    using no_size_values(1) [OF d] by simp
  ultimately show ?thesis by simp
qed

text \<open>
  C8 (amended): for a base product that declares no size attribute (or no size values)
  and whose selectable color values all have an id that \<open>String\<close> converts,
  \<open>extractVariationAttributes\<close> returns, with exactly one size, the placeholder with id
  \<open>NS\<close>, so the tasks pair every color with that one size. When the id of a selectable
  color value cannot be converted, it throws. Whether it returns is decided by the color
  values alone, and whenever it returns the sizes are the one placeholder.
\<close>

theorem C8_placeholder_size:
  "(\<forall>a \<in> set (declared_attributes product). \<not> attr_is ''size'' a) \<or> declared_size_values product = []
   \<longrightarrow> ((\<forall>v \<in> set (declared_color_values product). value_id v \<noteq> None)
          \<longrightarrow> (\<exists>va. extractVariationAttributes product = Some va
                    \<and> sizes va = [NS_size]
                    \<and> s_id NS_size = js ''NS''
                    \<and> \<not> hasSizeAttribute va
                    \<and> make_tasks (colors va) (sizes va) = map (\<lambda>c. (c, NS_size)) (colors va)))
       \<and> ((\<exists>v \<in> set (declared_color_values product). value_id v = None)
          \<longrightarrow> extractVariationAttributes product = None)
       \<and> (\<forall>va. extractVariationAttributes product = Some va \<longrightarrow> sizes va = [NS_size])"
proof
  assume "(\<forall>a \<in> set (declared_attributes product). \<not> attr_is ''size'' a) \<or> declared_size_values product = []"
  then have d: "declared_size_values product = []"
    using no_size_attr_no_values by blast
  note none = no_size_values(1) [OF d]
  have some: "\<And>va. extractVariationAttributes product = Some va
                \<Longrightarrow> sizes va = [NS_size] \<and> \<not> hasSizeAttribute va"
    using no_size_values(2) [OF d] .
  have a: "(\<forall>v \<in> set (declared_color_values product). value_id v \<noteq> None)
          \<longrightarrow> (\<exists>va. extractVariationAttributes product = Some va
                    \<and> sizes va = [NS_size]
                    \<and> s_id NS_size = js ''NS''
                    \<and> \<not> hasSizeAttribute va
                    \<and> make_tasks (colors va) (sizes va) = map (\<lambda>c. (c, NS_size)) (colors va))"
  proof
    assume "\<forall>v \<in> set (declared_color_values product). value_id v \<noteq> None"
    then have "extractVariationAttributes product \<noteq> None" using none by simp
    then obtain va where va: "extractVariationAttributes product = Some va" by auto
    then show "\<exists>va. extractVariationAttributes product = Some va
                    \<and> sizes va = [NS_size]
                    \<and> s_id NS_size = js ''NS''
                    \<and> \<not> hasSizeAttribute va
                    \<and> make_tasks (colors va) (sizes va) = map (\<lambda>c. (c, NS_size)) (colors va)"
      using some [OF va] by (simp add: tasks_single_size NS_size_def)
  qed
  have b: "(\<exists>v \<in> set (declared_color_values product). value_id v = None)
          \<longrightarrow> extractVariationAttributes product = None"
    using none by simp
  have c: "\<forall>va. extractVariationAttributes product = Some va \<longrightarrow> sizes va = [NS_size]"
    using some by simp
  show "((\<forall>v \<in> set (declared_color_values product). value_id v \<noteq> None)
          \<longrightarrow> (\<exists>va. extractVariationAttributes product = Some va
                    \<and> sizes va = [NS_size]
                    \<and> s_id NS_size = js ''NS''
                    \<and> \<not> hasSizeAttribute va
                    \<and> make_tasks (colors va) (sizes va) = map (\<lambda>c. (c, NS_size)) (colors va)))
       \<and> ((\<exists>v \<in> set (declared_color_values product). value_id v = None)
          \<longrightarrow> extractVariationAttributes product = None)
       \<and> (\<forall>va. extractVariationAttributes product = Some va \<longrightarrow> sizes va = [NS_size])"
    using a b c by blast
qed

lemma bag_no_size: "\<forall>a \<in> set (declared_attributes bag). \<not> attr_is ''size'' a"
  by (simp add: bag_def declared_attributes_def attr_is_def js_or_def js_def)

lemma bag_convertible: "\<forall>v \<in> set (declared_color_values bag). value_id v \<noteq> None"
  by (simp add: bag_def declared_color_values_def declared_attributes_def attr_is_def
        js_or_def js_def selectable_def value_id_def nullish_def)

lemma bag_colors:
  "map_option (map c_id \<circ> colors) (extractVariationAttributes bag) = Some [js ''0001'', js ''0002'']"
  by (simp add: bag_def extractVariationAttributes_def attr_is_def js_or_def js_def mk_color_def value_id_def nullish_def selectable_def)

theorem C8_placeholder_size_witness:
  "map_option (map s_id \<circ> sizes) (extractVariationAttributes bag) = Some [js ''NS'']
   \<and> map_option (\<lambda>va. map (\<lambda>(c, s). (c_id c, s_id s)) (make_tasks (colors va) (sizes va)))
        (extractVariationAttributes bag)
      = Some [(js ''0001'', js ''NS''), (js ''0002'', js ''NS'')]"
proof -
  obtain va where va: "extractVariationAttributes bag = Some va"
    and all: "sizes va = [NS_size]" "s_id NS_size = js ''NS''"
    and t: "make_tasks (colors va) (sizes va) = map (\<lambda>c. (c, NS_size)) (colors va)"
    using C8_placeholder_size [of bag] bag_no_size bag_convertible by blast
  have cs: "map c_id (colors va) = [js ''0001'', js ''0002'']"
    using bag_colors va by simp
  have "map (\<lambda>(c, s). (c_id c, s_id s)) (make_tasks (colors va) (sizes va))
        = map (\<lambda>(c, s). (c_id c, s_id s)) (map (\<lambda>c. (c, NS_size)) (colors va))"
    by (simp only: t)
  also have "\<dots> = map (\<lambda>i. (i, js ''NS'')) (map c_id (colors va))"
    using all by (simp add: comp_def)
  also have "\<dots> = [(js ''0001'', js ''NS''), (js ''0002'', js ''NS'')]"
    by (simp only: cs) simp
  finally show ?thesis using all va by simp
qed

section \<open>Retrying fetcher: properties\<close>

lemma fetch_call_log:
  assumes "fetch_call net w = (r, w')"
  shows "calls w' = calls w + 1" "waits w' = waits w"
    "\<exists>t1. attempts w' = attempts w @ [(now w, t1, r)]"
    "outcomes w' = outcomes w @ [r]"
  using assms
  by (auto simp: fetch_call_def advance_def outcomes_def split: prod.splits option.splits if_splits)

lemma sleep_log:
  "calls (sleep ms w) = calls w" "waits (sleep ms w) = waits w @ [ms]"
  "attempts (sleep ms w) = attempts w" "outcomes (sleep ms w) = outcomes w"
  by (auto simp: sleep_def advance_def outcomes_def split: option.splits)

lemma upt_snoc_map: "map f [1..<Suc (Suc a)] = map f [1..<Suc a] @ [f (Suc a)]"
  by simp

lemma loop_post:
  "0 \<le> retries cfg \<Longrightarrow> loop_entry cfg attempt lastErr w \<Longrightarrow>
   loop_exit cfg (fetchJson_loop net cfg attempt lastErr w)"
proof (induction net cfg attempt lastErr w rule: fetchJson_loop.induct)
  case (1 net cfg attempt lastErr w)
  let ?n = "nat (retries cfg)"
  note pre = "1.prems"(2) [unfolded loop_entry_def]
  show ?case
  proof (cases "int attempt \<le> retries cfg")
    case False
    then have a: "attempt = ?n + 1" using pre "1.prems"(1) by linarith
    have "fetchJson_loop net cfg attempt lastErr w = (Inl lastErr, w)"
      using False by simp
    moreover have "loop_exit cfg (Inl lastErr, w)"
      using pre a by (auto simp: loop_exit_def)
    ultimately show ?thesis by simp
  next
    case True
    then have le: "attempt \<le> ?n" by linarith
    obtain r w1 where fc: "fetch_call net w = (r, w1)" by (cases "fetch_call net w")
    note lg = fetch_call_log [OF fc]
    show ?thesis
    proof (cases r)
      case (Inr j)
      have "fetchJson_loop net cfg attempt lastErr w = (Inr j, w1)"
        using True fc Inr by simp
      moreover have "loop_exit cfg (Inr j, w1)"
        using pre le lg Inr
        by (auto simp: loop_exit_def outcomes_def nth_append min_def)
      ultimately show ?thesis by simp
    next
      case (Inl e)
      let ?w2 = "if int attempt < retries cfg
                 then sleep (retryDelayMs cfg * (attempt + 1)) w1 else w1"
      have eq: "fetchJson_loop net cfg attempt lastErr w
                = fetchJson_loop net cfg (attempt + 1) (Some e) ?w2"
        using True fc Inl by simp
      have out2: "outcomes ?w2 = outcomes w @ [Inl e]" "calls ?w2 = attempt + 1"
        "length (attempts ?w2) = attempt + 1"
        using lg Inl pre by (auto simp: sleep_log)
      have olen: "length (outcomes w) = attempt"
        using pre by (simp add: outcomes_def)
      have w2: "waits ?w2 = map (\<lambda>a. retryDelayMs cfg * a) [1..<Suc (min (attempt + 1) ?n)]"
      proof (cases "int attempt < retries cfg")
        case True
        then have "attempt < ?n" by linarith
        then show ?thesis using True pre lg by (simp add: sleep_log min_def)
      next
        case False
        then have "attempt = ?n" using le by linarith
        then show ?thesis using False pre lg by (simp add: min_def)
      qed
      have "loop_entry cfg (attempt + 1) (Some e) ?w2"
        unfolding loop_entry_def
        using le pre out2 w2 olen by (auto simp: nth_append less_Suc_eq simp del: upt_Suc)
      then have "loop_exit cfg (fetchJson_loop net cfg (attempt + 1) (Some e) ?w2)"
        by (rule "1.IH" [OF True fc [symmetric] Inl "1.prems"(1)])
      then show ?thesis using eq by simp
    qed
  qed
qed


lemma start_entry: "loop_entry cfg 0 None (start_world cfg t0)"
  by (simp add: loop_entry_def start_world_def)

lemma fetch_call_clock:
  assumes "fetch_call net w = (r, w')"
  shows "\<exists>t1. now w' = t1 \<and> attempts w' = attempts w @ [(now w, t1, r)]"
  using assms
  by (auto simp: fetch_call_def advance_def split: prod.splits option.splits if_splits)

lemma sleep_clock:
  "now (sleep ms w) = now w + timer_delay ms" "attempts (sleep ms w) = attempts w"
  by (auto simp: sleep_def advance_def split: option.splits)

lemma loop_spacing:
  "loop_clock cfg attempt w \<Longrightarrow> spaced cfg (snd (fetchJson_loop net cfg attempt lastErr w))"
proof (induction net cfg attempt lastErr w rule: fetchJson_loop.induct)
  case (1 net cfg attempt lastErr w)
  note pre = "1.prems" [unfolded loop_clock_def]
  show ?case
  proof (cases "int attempt \<le> retries cfg")
    case False
    then show ?thesis using pre by simp
  next
    case True
    obtain r w1 where fc: "fetch_call net w = (r, w1)" by (cases "fetch_call net w")
    obtain t1 where t1: "now w1 = t1" "attempts w1 = attempts w @ [(now w, t1, r)]"
      using fetch_call_clock [OF fc] by blast
    have len: "length (attempts w) = attempt" using pre by simp
    have sp: "spaced cfg w1"
      unfolding spaced_def
    proof (intro allI impI)
      fix k
      assume k: "k + 1 < length (attempts w1)"
      show "started w1 (k + 1) = ended w1 k + timer_delay (retryDelayMs cfg * (k + 1))"
      proof (cases "k + 1 < attempt")
        case True
        then have "started w (k + 1) = ended w k + timer_delay (retryDelayMs cfg * (k + 1))"
          using pre by (simp add: spaced_def)
        then show ?thesis using True len t1 by (simp add: started_def ended_def nth_append)
      next
        case False
        then have e: "k + 1 = attempt" using k t1 len by simp
        then have "now w = ended w k + timer_delay (retryDelayMs cfg * attempt)"
          using pre \<open>int attempt \<le> retries cfg\<close> by auto
        then show ?thesis using e len t1 by (auto simp: started_def ended_def nth_append)
      qed
    qed
    have lw1: "length (attempts w1) = attempt + 1" "ended w1 attempt = t1"
      using t1 len by (simp_all add: ended_def nth_append)
    show ?thesis
    proof (cases r)
      case (Inr j)
      then show ?thesis using True fc sp by simp
    next
      case (Inl e)
      let ?w2 = "if int attempt < retries cfg
                 then sleep (retryDelayMs cfg * (attempt + 1)) w1 else w1"
      have a2: "attempts ?w2 = attempts w1" by (simp add: sleep_clock)
      have "spaced cfg ?w2" using sp a2 by (simp add: spaced_def started_def ended_def)
      moreover have "now ?w2 = ended ?w2 attempt
                    + (if int (attempt + 1) \<le> retries cfg
                       then timer_delay (retryDelayMs cfg * (attempt + 1)) else 0)"
        using t1 lw1 a2 by (auto simp: sleep_clock ended_def)
      ultimately have "loop_clock cfg (attempt + 1) ?w2"
        using lw1 a2 by (simp add: loop_clock_def)
      then have "spaced cfg (snd (fetchJson_loop net cfg (attempt + 1) (Some e) ?w2))"
        by (rule "1.IH" [OF True fc [symmetric] Inl])
      then show ?thesis using True fc Inl by simp
    qed
  qed
qed

lemma fetchJson_spaced:
  assumes "fetchJson net cfg t0 = (res, w)"
  shows "spaced cfg w"
proof -
  obtain w' where l: "fetchJson_loop net cfg 0 None (start_world cfg t0) = (res, w')"
    and w: "w = w'\<lparr>timer := None\<rparr>"
    using assms by (auto simp: fetchJson_def split: prod.splits)
  have "loop_clock cfg 0 (start_world cfg t0)"
    by (simp add: loop_clock_def spaced_def start_world_def)
  then have "spaced cfg (snd (fetchJson_loop net cfg 0 None (start_world cfg t0)))"
    by (rule loop_spacing)
  then show ?thesis using l w by (simp add: spaced_def started_def ended_def)
qed

lemma fetchJson_exit:
  assumes "0 \<le> retries cfg" "fetchJson net cfg t0 = (res, w)"
  shows "loop_exit cfg (res, w)"
proof -
  obtain w' where l: "fetchJson_loop net cfg 0 None (start_world cfg t0) = (res, w')"
    and w: "w = w'\<lparr>timer := None\<rparr>"
    using assms(2) by (auto simp: fetchJson_def split: prod.splits)
  have e: "loop_exit cfg (res, w')"
    using loop_post [OF assms(1) start_entry, of net t0] l by simp
  have o: "outcomes w = outcomes w'" "calls w = calls w'" "waits w = waits w'"
    "attempts w = attempts w'"
    using w by (simp_all add: outcomes_def)
  show ?thesis
    unfolding loop_exit_def prod.case o
    using e [unfolded loop_exit_def prod.case] .
qed

lemma long_delay_run:
  "fetchJson always_down long_delay 0
   = (Inl (Some TransportError),
      \<lparr> now = 3, timer = None, aborted = False, calls = 2, waits = [2147483648],
        attempts = [(0, 1, Inl TransportError), (2, 3, Inl TransportError)] \<rparr>)"
  by (simp add: fetchJson_def start_world_def long_delay_def always_down_def fetch_call_def
      attempt_result_def advance_def sleep_def in_time_def cut_def res_ok_def timer_delay_def)

text \<open>
  C2, as stated, fails on the wait: the delay goes to \<open>setTimeout\<close>, which takes
  nothing above \<open>2^31 - 1\<close> ms (nor below 1) and waits 1 ms instead. With a base delay of
  \<open>2^31\<close> ms the first retry is asked to wait \<open>2^31\<close> ms and starts 1 ms after the
  failed attempt.
\<close>

theorem C2_wait_clamped_counterexample:
  "retryDelayMs long_delay * 1 = 2147483648
   \<and> waits (snd (fetchJson always_down long_delay 0)) = [2147483648]
   \<and> ended (snd (fetchJson always_down long_delay 0)) 0 = 1
   \<and> started (snd (fetchJson always_down long_delay 0)) 1 = 2
   \<and> started (snd (fetchJson always_down long_delay 0)) 1
       \<noteq> ended (snd (fetchJson always_down long_delay 0)) 0 + retryDelayMs long_delay * 1"
  by (simp add: long_delay_run started_def ended_def) (simp add: long_delay_def)

text \<open>
  C2 (amended): for every retry count \<open>R \<ge> 0\<close>, a \<open>fetchJson\<close> call makes at most
  \<open>R + 1\<close> calls of \<open>fetch\<close>; when all its attempts fail it makes exactly \<open>R + 1\<close> and
  throws the error of the last one; when attempts \<open>1..R\<close> fail and attempt \<open>R + 1\<close>
  succeeds it makes exactly \<open>R + 1\<close> and returns that result. Before each retry it
  sleeps, asking for \<open>retryDelayMs \<times> attemptNumber\<close> ms: the next attempt starts that
  long after the failed one ended when the product lies between 1 and \<open>2^31 - 1\<close>, and
  1 ms after it otherwise.
\<close>

theorem C2_retry_budget:
  assumes "0 \<le> retries cfg" "fetchJson net cfg t0 = (res, w)"
  shows "calls w = length (outcomes w) \<and> calls w \<le> nat (retries cfg) + 1
    \<and> ((\<forall>k < length (outcomes w). isl (outcomes w ! k))
          \<longrightarrow> calls w = nat (retries cfg) + 1
              \<and> (\<exists>e. res = Inl (Some e) \<and> outcomes w ! nat (retries cfg) = Inl e))
    \<and> ((\<forall>k < nat (retries cfg). isl (outcomes w ! k))
         \<and> nat (retries cfg) < length (outcomes w) \<and> outcomes w ! nat (retries cfg) = Inr j
          \<longrightarrow> calls w = nat (retries cfg) + 1 \<and> res = Inr j)
    \<and> waits w = map (\<lambda>attemptNumber. retryDelayMs cfg * attemptNumber) [1..<calls w]
    \<and> (\<forall>attemptNumber. 1 \<le> attemptNumber \<and> attemptNumber < calls w
          \<longrightarrow> started w attemptNumber
                = ended w (attemptNumber - 1)
                  + (if 1 \<le> retryDelayMs cfg * attemptNumber
                        \<and> retryDelayMs cfg * attemptNumber \<le> 2147483647
                     then retryDelayMs cfg * attemptNumber else 1))"
proof -
  have lo: "length (outcomes w) = length (attempts w)" by (simp add: outcomes_def)
  have ex: "calls w = length (outcomes w)"
    "waits w = map (\<lambda>a. retryDelayMs cfg * a) [1..<calls w]"
    "1 \<le> calls w" "calls w \<le> nat (retries cfg) + 1"
    "\<forall>k < calls w - 1. isl (outcomes w ! k)"
    "case res of Inr j \<Rightarrow> outcomes w ! (calls w - 1) = Inr j
       | Inl lastErr \<Rightarrow> calls w = nat (retries cfg) + 1
           \<and> (\<exists>e. lastErr = Some e \<and> outcomes w ! nat (retries cfg) = Inl e)"
    using fetchJson_exit [OF assms] by (simp_all add: loop_exit_def lo)
  note len = ex(1)
  have a: "calls w = nat (retries cfg) + 1
              \<and> (\<exists>e. res = Inl (Some e) \<and> outcomes w ! nat (retries cfg) = Inl e)"
    if "\<forall>k < length (outcomes w). isl (outcomes w ! k)"
  proof (cases res)
    case (Inl le)
    then show ?thesis using ex by simp
  next
    case (Inr j)
    then have "outcomes w ! (calls w - 1) = Inr j" using ex by simp
    moreover have "calls w - 1 < length (outcomes w)" using ex len by simp
    ultimately show ?thesis using that by (metis sum.disc(2))
  qed
  have b: "calls w = nat (retries cfg) + 1 \<and> res = Inr j"
    if "nat (retries cfg) < length (outcomes w)" "outcomes w ! nat (retries cfg) = Inr j"
  proof -
    have c: "calls w = nat (retries cfg) + 1" using that(1) len ex by simp
    show ?thesis
    proof (cases res)
      case (Inl le)
      then show ?thesis using ex that(2) by auto
    next
      case (Inr j')
      moreover have "calls w - 1 = nat (retries cfg)" using c by simp
      ultimately show ?thesis using ex(6) that(2) c by simp
    qed
  qed
  have t: "started w n = ended w (n - 1)
                  + (if 1 \<le> retryDelayMs cfg * n \<and> retryDelayMs cfg * n \<le> 2147483647
                     then retryDelayMs cfg * n else 1)"
    if "1 \<le> n" "n < calls w" for n
  proof -
    have "(n - 1) + 1 < length (attempts w)" using that len lo by simp
    then have "started w ((n - 1) + 1)
                 = ended w (n - 1) + timer_delay (retryDelayMs cfg * ((n - 1) + 1))"
      using fetchJson_spaced [OF assms(2)] unfolding spaced_def by blast
    moreover have "(n - 1) + 1 = n" using that by simp
    ultimately show ?thesis by (auto simp: timer_delay_def)
  qed
  show ?thesis using ex len a b t by blast
qed

lemma always_down_run:
  "fetchJson always_down one_retry 0
   = (Inl (Some TransportError),
      \<lparr> now = 12, timer = None, aborted = False, calls = 2, waits = [10],
        attempts = [(0, 1, Inl TransportError), (11, 12, Inl TransportError)] \<rparr>)"
  by (simp add: fetchJson_def start_world_def one_retry_def always_down_def fetch_call_def
      attempt_result_def advance_def sleep_def in_time_def cut_def res_ok_def timer_delay_def)

lemma down_then_up_run:
  "fetchJson down_then_up one_retry 0
   = (Inr Null,
      \<lparr> now = 13, timer = None, aborted = False, calls = 2, waits = [10],
        attempts = [(0, 1, Inl TransportError), (11, 13, Inr Null)] \<rparr>)"
  by (simp add: fetchJson_def start_world_def one_retry_def down_then_up_def fetch_call_def
      attempt_result_def advance_def sleep_def in_time_def cut_def res_ok_def timer_delay_def)

theorem C2_retry_budget_witness:
  "calls (snd (fetchJson always_down one_retry 0)) = 2
   \<and> fst (fetchJson always_down one_retry 0) = Inl (Some TransportError)
   \<and> waits (snd (fetchJson always_down one_retry 0)) = [10 * 1]
   \<and> ended (snd (fetchJson always_down one_retry 0)) 0 = 1
   \<and> started (snd (fetchJson always_down one_retry 0)) 1 = 1 + 10 * 1
   \<and> calls (snd (fetchJson down_then_up one_retry 0)) = 2
   \<and> fst (fetchJson down_then_up one_retry 0) = Inr Null"
proof -
  let ?w = "snd (fetchJson always_down one_retry 0)"
  let ?v = "snd (fetchJson down_then_up one_retry 0)"
  have r: "0 \<le> retries one_retry" "nat (retries one_retry) = 1" "retryDelayMs one_retry = 10"
    by (simp_all add: one_retry_def)
  have f: "\<forall>k < length (outcomes ?w). isl (outcomes ?w ! k)"
    by (simp add: always_down_run outcomes_def less_Suc_eq)
  note t = C2_retry_budget [OF r(1) prod.collapse [symmetric], of always_down 0 Null]
  from t f have c: "calls ?w = nat (retries one_retry) + 1" by blast
  from t have wt: "waits ?w = map (\<lambda>a. retryDelayMs one_retry * a) [1..<calls ?w]" by blast
  from t have "\<forall>n. 1 \<le> n \<and> n < calls ?w
          \<longrightarrow> started ?w n
                = ended ?w (n - 1)
                  + (if 1 \<le> retryDelayMs one_retry * n \<and> retryDelayMs one_retry * n \<le> 2147483647
                     then retryDelayMs one_retry * n else 1)" by blast
  then have "(1::nat) \<le> 1 \<and> 1 < calls ?w
          \<longrightarrow> started ?w 1
                = ended ?w (1 - 1)
                  + (if 1 \<le> retryDelayMs one_retry * 1 \<and> retryDelayMs one_retry * 1 \<le> 2147483647
                     then retryDelayMs one_retry * 1 else 1)" by blast
  then have st: "started ?w 1 = ended ?w 0 + 10" using c r by simp
  have en: "ended ?w 0 = 1" by (simp add: always_down_run ended_def)
  have g: "(\<forall>k < nat (retries one_retry). isl (outcomes ?v ! k))
      \<and> nat (retries one_retry) < length (outcomes ?v)
      \<and> outcomes ?v ! nat (retries one_retry) = Inr Null"
    by (simp add: down_then_up_run outcomes_def r)
  note u = C2_retry_budget [OF r(1) prod.collapse [symmetric], of down_then_up 0 Null]
  from u g have "calls ?v = nat (retries one_retry) + 1
      \<and> fst (fetchJson down_then_up one_retry 0) = Inr Null" by blast
  then show ?thesis using r c wt st en by (simp add: always_down_run)
qed

text \<open>
  C6, as stated, fails: a body that is not JSON on a response with status 200 makes
  \<open>res.json()\<close> throw inside the same \<open>try\<close>, and the attempt is retried. Here the
  second request is made and its result returned.
\<close>

theorem C6_parse_failure_retried_counterexample:
  "fst (fetchJson garbled_then_json one_retry 0) = Inr Null
   \<and> outcomes (snd (fetchJson garbled_then_json one_retry 0)) = [Inl SyntaxError, Inr Null]
   \<and> calls (snd (fetchJson garbled_then_json one_retry 0)) = 2"
  by (simp add: fetchJson_def start_world_def one_retry_def garbled_then_json_def fetch_call_def
      attempt_result_def advance_def sleep_def in_time_def cut_def res_ok_def outcomes_def
      timer_delay_def)

text \<open>
  C6 (amended): a response whose body is not JSON is a failed attempt like any other:
  while retries remain, the fetcher sleeps as before any retry, asking for
  \<open>retryDelayMs \<times> attemptNumber\<close> ms, and calls \<open>fetch\<close> again when the timer of that
  sleep is due; on the last attempt the \<open>SyntaxError\<close> is what \<open>fetchJson\<close> throws.
\<close>

theorem C6_parse_failure_is_retried:
  assumes "0 \<le> retries cfg" "fetchJson net cfg t0 = (res, w)"
    and "k < length (outcomes w)" "outcomes w ! k = Inl SyntaxError"
  shows "(int k < retries cfg
            \<longrightarrow> k + 1 < calls w \<and> waits w ! k = retryDelayMs cfg * (k + 1)
                \<and> started w (k + 1) = ended w k + timer_delay (retryDelayMs cfg * (k + 1)))
       \<and> (int k = retries cfg \<longrightarrow> res = Inl (Some SyntaxError))"
proof -
  have lo: "length (outcomes w) = length (attempts w)" by (simp add: outcomes_def)
  have ex: "calls w = length (outcomes w)"
    "waits w = map (\<lambda>a. retryDelayMs cfg * a) [1..<calls w]"
    "1 \<le> calls w" "calls w \<le> nat (retries cfg) + 1"
    "\<forall>k < calls w - 1. isl (outcomes w ! k)"
    "case res of Inr j \<Rightarrow> outcomes w ! (calls w - 1) = Inr j
       | Inl lastErr \<Rightarrow> calls w = nat (retries cfg) + 1
           \<and> (\<exists>e. lastErr = Some e \<and> outcomes w ! nat (retries cfg) = Inl e)"
    using fetchJson_exit [OF assms(1,2)] by (simp_all add: loop_exit_def lo)
  have a: "k + 1 < calls w \<and> waits w ! k = retryDelayMs cfg * (k + 1)
           \<and> started w (k + 1) = ended w k + timer_delay (retryDelayMs cfg * (k + 1))"
    if "int k < retries cfg"
  proof -
    have c: "k + 1 < calls w"
    proof (cases res)
      case (Inl le)
      then show ?thesis using ex(6) that by simp
    next
      case (Inr j)
      then have "k \<noteq> calls w - 1" using ex(6) assms(4) by auto
      then show ?thesis using assms(3) ex(1) by simp
    qed
    then have "k + 1 < length (attempts w)" using ex(1) lo by simp
    then have "started w (k + 1) = ended w k + timer_delay (retryDelayMs cfg * (k + 1))"
      using fetchJson_spaced [OF assms(2)] unfolding spaced_def by blast
    then show ?thesis using c ex(2) by (simp add: nth_append)
  qed
  have b: "res = Inl (Some SyntaxError)" if "int k = retries cfg"
  proof -
    have k: "k = nat (retries cfg)" using that by simp
    then have c: "calls w - 1 = nat (retries cfg)" using assms(3) ex(1,4) by simp
    show ?thesis
    proof (cases res)
      case (Inl le)
      then show ?thesis using ex(6) assms(4) k by auto
    next
      case (Inr j)
      then show ?thesis using ex(6) assms(4) k c by simp
    qed
  qed
  show ?thesis using a b by blast
qed

theorem C6_parse_failure_is_retried_witness:
  "0 + 1 < calls (snd (fetchJson garbled_then_json one_retry 0))
   \<and> waits (snd (fetchJson garbled_then_json one_retry 0)) ! 0 = 10 * (0 + 1)
   \<and> started (snd (fetchJson garbled_then_json one_retry 0)) (0 + 1)
       = ended (snd (fetchJson garbled_then_json one_retry 0)) 0 + 10"
proof -
  let ?w = "snd (fetchJson garbled_then_json one_retry 0)"
  have run: "outcomes ?w = [Inl SyntaxError, Inr Null]"
    by (simp add: fetchJson_def start_world_def one_retry_def garbled_then_json_def fetch_call_def
      attempt_result_def advance_def sleep_def in_time_def cut_def res_ok_def outcomes_def
      timer_delay_def)
  have r: "0 \<le> retries one_retry" "int 0 < retries one_retry" "retryDelayMs one_retry = 10"
    by (simp_all add: one_retry_def)
  have h: "0 < length (outcomes ?w)" "outcomes ?w ! 0 = Inl SyntaxError"
    by (simp_all add: run)
  show ?thesis
    using C6_parse_failure_is_retried [OF r(1) prod.collapse [symmetric] h] r(2,3)
    by (simp add: timer_delay_def)
qed


lemma advance_timer:
  "timer_state d w \<Longrightarrow> now w \<le> t \<Longrightarrow> timer_state d (advance t w)"
  by (auto simp: timer_state_def advance_def split: option.splits)

lemma advance_fields:
  "now (advance t w) = t" "attempts (advance t w) = attempts w"
  by (auto simp: advance_def split: option.splits)

lemma attempt_result_bound:
  assumes "timer_state d w"
    and "attempt_result (now w) (timer w) (aborted w) call = (t1, r)"
  shows "now w \<le> t1 \<and> t1 \<le> max (now w) d \<and> (d < now w \<longrightarrow> t1 = now w \<and> r = Inl AbortError)"
proof (cases "aborted w")
  case True
  then show ?thesis using assms by (auto simp: attempt_result_def split: prod.splits)
next
  case False
  then have "timer w = Some d" "now w \<le> d" using assms(1) by (auto simp: timer_state_def)
  then show ?thesis
    using assms(2) False
    by (auto simp: attempt_result_def in_time_def cut_def split: prod.splits reply.splits if_splits)
qed

lemma fetch_call_timer:
  assumes "timer_state d w" "under_deadline d (attempts w)" "fetch_call net w = (r, w')"
  shows "timer_state d w' \<and> under_deadline d (attempts w')"
proof -
  obtain t1 where ar: "attempt_result (now w) (timer w) (aborted w) (net (calls w)) = (t1, r)"
    and w': "w' = (advance t1 w)\<lparr>calls := calls w + 1, attempts := attempts w @ [(now w, t1, r)]\<rparr>"
    using assms(3) by (auto simp: fetch_call_def split: prod.splits)
  note b = attempt_result_bound [OF assms(1) ar]
  have "timer_state d (advance t1 w)" using advance_timer [OF assms(1)] b by simp
  then have "timer_state d w'" using w' by (simp add: timer_state_def)
  moreover have "under_deadline d (attempts w')"
    using assms(2) b w' by (simp add: under_deadline_def)
  ultimately show ?thesis by simp
qed

lemma sleep_timer:
  assumes "timer_state d w" "under_deadline d (attempts w)"
  shows "timer_state d (sleep ms w) \<and> under_deadline d (attempts (sleep ms w))"
proof -
  have "timer_state d (advance (now w + timer_delay ms) w)"
    using advance_timer [OF assms(1)] by simp
  then show ?thesis using assms(2) by (simp add: sleep_def timer_state_def advance_fields)
qed

lemma loop_timer:
  "timer_state d w \<Longrightarrow> under_deadline d (attempts w) \<Longrightarrow>
   under_deadline d (attempts (snd (fetchJson_loop net cfg attempt lastErr w)))"
proof (induction net cfg attempt lastErr w rule: fetchJson_loop.induct)
  case (1 net cfg attempt lastErr w)
  show ?case
  proof (cases "int attempt \<le> retries cfg")
    case False
    then show ?thesis using "1.prems" by simp
  next
    case True
    obtain r w1 where fc: "fetch_call net w = (r, w1)" by (cases "fetch_call net w")
    note t1 = fetch_call_timer [OF "1.prems" fc]
    show ?thesis
    proof (cases r)
      case (Inr j)
      then show ?thesis using True fc t1 by simp
    next
      case (Inl e)
      let ?w2 = "if int attempt < retries cfg
                 then sleep (retryDelayMs cfg * (attempt + 1)) w1 else w1"
      have "timer_state d ?w2 \<and> under_deadline d (attempts ?w2)"
        using t1 sleep_timer [of d w1] by simp
      then have "under_deadline d (attempts (snd (fetchJson_loop net cfg (attempt + 1) (Some e) ?w2)))"
        using "1.IH" [OF True fc [symmetric] Inl] by blast
      then show ?thesis using True fc Inl by simp
    qed
  qed
qed

lemma start_timer:
  "timer_state (t0 + timer_delay (timeoutMs cfg)) (start_world cfg t0)"
  "under_deadline d (attempts (start_world cfg t0))"
  by (simp_all add: timer_state_def start_world_def under_deadline_def)

text \<open>
  The time the timer is due is not always \<open>timeoutMs\<close> after the start: with
  \<open>timeoutMs = 0\<close> it is due after 1 ms, and a call answered within that millisecond
  returns, 1 ms after its start.
\<close>

lemma zero_timeout_run:
  "fst (fetchJson quick zero_timeout 0) = Inr Null
   \<and> attempts (snd (fetchJson quick zero_timeout 0)) = [(0, 1, Inr Null)]"
  by (simp add: fetchJson_def start_world_def zero_timeout_def quick_def fetch_call_def
      attempt_result_def advance_def in_time_def cut_def res_ok_def timer_delay_def)

text \<open>
  C7, as stated, fails: the timer is set once, before the loop, and its controller is
  shared by all attempts. With \<open>timeoutMs = 100\<close>, the first attempt is aborted at 100 ms
  and the second, started at 110 ms, is aborted at once, although the reply would have
  come within 5 ms; with a timer of its own the second attempt returns at 115 ms.
\<close>

theorem C7_counterexample_shared_timer:
  "attempts (snd (fetchJson slow_then_fast one_retry 0))
     = [(0, 100, Inl AbortError), (110, 110, Inl AbortError)]
   \<and> fst (fetchJson slow_then_fast one_retry 0) = Inl (Some AbortError)
   \<and> attempt_result 110 (Some (110 + timeoutMs one_retry)) False (slow_then_fast 1)
     = (115, Inr Null)"
  by (simp add: fetchJson_def start_world_def one_retry_def slow_then_fast_def fetch_call_def
      attempt_result_def advance_def sleep_def in_time_def cut_def res_ok_def timer_delay_def)

text \<open>
  C7 (amended): the timeout applies per \<open>fetchJson\<close> call. One timer is set when the
  call starts, due after \<open>timeoutMs\<close> (after 1 ms when \<open>timeoutMs\<close> is 0 or above
  \<open>2^31 - 1\<close>, as \<open>setTimeout\<close> has it), and it covers all the attempts and the waits
  between them: no attempt runs past the time the timer is due, and an attempt that
  starts after it is aborted at once. For \<open>timeoutMs \<ge> 1\<close> that time is no later than
  \<open>timeoutMs\<close> after the start of the call, so the same holds of that deadline. The
  timer is cleared when the call returns or throws.
\<close>

theorem C7_one_timer_per_call:
  assumes "fetchJson net cfg t0 = (res, w)"
  shows "timer w = None
    \<and> (\<forall>a \<in> set (attempts w). case a of (s, e, r) \<Rightarrow>
          s \<le> e \<and> e \<le> max s (t0 + timer_delay (timeoutMs cfg))
          \<and> (t0 + timer_delay (timeoutMs cfg) < s \<longrightarrow> e = s \<and> r = Inl AbortError))
    \<and> (1 \<le> timeoutMs cfg \<longrightarrow>
         (\<forall>a \<in> set (attempts w). case a of (s, e, r) \<Rightarrow>
            s \<le> e \<and> e \<le> max s (t0 + timeoutMs cfg)
            \<and> (t0 + timeoutMs cfg < s \<longrightarrow> e = s \<and> r = Inl AbortError)))"
proof -
  obtain w' where l: "fetchJson_loop net cfg 0 None (start_world cfg t0) = (res, w')"
    and w: "w = w'\<lparr>timer := None\<rparr>"
    using assms by (auto simp: fetchJson_def split: prod.splits)
  have "under_deadline (t0 + timer_delay (timeoutMs cfg))
          (attempts (snd (fetchJson_loop net cfg 0 None (start_world cfg t0))))"
    by (rule loop_timer [OF start_timer])
  then have "under_deadline (t0 + timer_delay (timeoutMs cfg)) (attempts w')"
    using l by simp
  then have a: "\<forall>a \<in> set (attempts w). case a of (s, e, r) \<Rightarrow>
          s \<le> e \<and> e \<le> max s (t0 + timer_delay (timeoutMs cfg))
          \<and> (t0 + timer_delay (timeoutMs cfg) < s \<longrightarrow> e = s \<and> r = Inl AbortError)"
    using w by (simp add: under_deadline_def list_all_iff)
  have b: "\<forall>a \<in> set (attempts w). case a of (s, e, r) \<Rightarrow>
            s \<le> e \<and> e \<le> max s (t0 + timeoutMs cfg)
            \<and> (t0 + timeoutMs cfg < s \<longrightarrow> e = s \<and> r = Inl AbortError)"
    if "1 \<le> timeoutMs cfg"
  proof -
    have "timer_delay (timeoutMs cfg) \<le> timeoutMs cfg"
      using that by (simp add: timer_delay_def)
    then show ?thesis using a by fastforce
  qed
  have c: "timer w = None" using w by simp
  show ?thesis using a b c by blast
qed

theorem C7_one_timer_per_call_witness:
  "timer (snd (fetchJson slow_then_fast one_retry 0)) = None
   \<and> list_all (\<lambda>(s, e, r). s \<le> e \<and> e \<le> max s 100)
        (attempts (snd (fetchJson slow_then_fast one_retry 0)))
   \<and> attempts (snd (fetchJson slow_then_fast one_retry 0)) \<noteq> []"
proof -
  let ?w = "snd (fetchJson slow_then_fast one_retry 0)"
  have m: "(110, 110, Inl AbortError) \<in> set (attempts ?w)"
    by (simp add: fetchJson_def start_world_def one_retry_def slow_then_fast_def fetch_call_def
      attempt_result_def advance_def sleep_def in_time_def cut_def res_ok_def timer_delay_def)
  note t = C7_one_timer_per_call [OF prod.collapse [symmetric], of slow_then_fast one_retry 0]
  have "timer ?w = None" using t by blast
  moreover have "1 \<le> timeoutMs one_retry" by (simp add: one_retry_def)
  then have "\<forall>a \<in> set (attempts ?w). case a of (s, e, r) \<Rightarrow>
            s \<le> e \<and> e \<le> max s (0 + timeoutMs one_retry)
            \<and> (0 + timeoutMs one_retry < s \<longrightarrow> e = s \<and> r = Inl AbortError)"
    using t by blast
  then have "\<forall>a \<in> set (attempts ?w). case a of (s, e, r) \<Rightarrow>
          s \<le> e \<and> e \<le> max s (0 + timeoutMs one_retry)"
    by fastforce
  then have "list_all (\<lambda>(s, e, r). s \<le> e \<and> e \<le> max s 100) (attempts ?w)"
    by (simp add: list_all_iff one_retry_def)
  moreover have "attempts ?w \<noteq> []" using m by auto
  ultimately show ?thesis by blast
qed

section \<open>Bounded worker pool: properties\<close>

lemma spawn_closed:
  "(start_worker n ^^ k) \<lparr>idx = 0, out = replicate n None, workers = [], settled = None\<rparr>
   = \<lparr>idx = k, out = replicate n None, workers = map (enter n) [0..<k], settled = None\<rparr>"
  by (induction k) (simp_all add: start_worker_def)

lemma filter_update_count:
  "w < length xs \<Longrightarrow>
   length (filter P (xs[w := x])) + (if P (xs ! w) then 1 else 0)
   = length (filter P xs) + (if P x then 1 else 0)"
proof (induction xs arbitrary: w)
  case Nil
  then show ?case by simp
next
  case (Cons a xs)
  then show ?case by (cases w) auto
qed

lemma in_flight_spawn: "length (filter (is_awaiting \<circ> enter n) [0..<k]) = min k n"
  by (induction k) (auto simp: enter_def)

lemma awaiting_set:
  "w \<in> set (awaiting p) \<longleftrightarrow> w < length (workers p) \<and> is_awaiting (workers p ! w)"
  by (auto simp: awaiting_def)

lemma awaiting_empty: "awaiting p = [] \<longleftrightarrow> in_flight p = 0"
proof -
  have "awaiting p = [] \<longleftrightarrow> (\<forall>w < length (workers p). \<not> is_awaiting (workers p ! w))"
    by (auto simp: awaiting_def filter_empty_conv)
  also have "\<dots> \<longleftrightarrow> (\<forall>x \<in> set (workers p). \<not> is_awaiting x)"
    by (simp add: all_set_conv_all_nth)
  also have "\<dots> \<longleftrightarrow> in_flight p = 0"
    by (auto simp: in_flight_def filter_empty_conv)
  finally show ?thesis .
qed

lemma all_returned_nth:
  "all_returned p \<longleftrightarrow> (\<forall>w < length (workers p). workers p ! w = Returned)"
  by (simp add: all_returned_def list_all_iff all_set_conv_all_nth)

lemma settle_fields:
  "idx (settle p) = idx p" "out (settle p) = out p" "workers (settle p) = workers p"
  "all_returned (settle p) = all_returned p" "in_flight (settle p) = in_flight p"
  by (simp_all add: settle_def all_returned_def in_flight_def)


lemma in_flight_pos:
  "0 < in_flight p \<longleftrightarrow> (\<exists>w < length (workers p). is_awaiting (workers p ! w))"
proof -
  have "0 < in_flight p \<longleftrightarrow> \<not> (\<forall>x \<in> set (workers p). \<not> is_awaiting x)"
    by (auto simp: in_flight_def filter_empty_conv)
  then show ?thesis by (simp add: all_set_conv_all_nth)
qed

lemma start_inv:
  assumes "1 \<le> k"
  shows "pool_inv items mapper k
           (settle \<lparr>idx = k, out = replicate (length items) None,
                    workers = map (enter (length items)) [0..<k], settled = None\<rparr>)"
    (is "pool_inv _ _ _ (settle ?p)")
proof -
  let ?n = "length items"
  have w: "\<forall>w < k. case workers ?p ! w of
             Awaiting i \<Rightarrow> i < ?n \<and> i < idx ?p \<and> out ?p ! i = None
           | Returned \<Rightarrow> ?n < idx ?p
           | Threw e \<Rightarrow> False"
    by (auto simp: enter_def)
  have d: "\<forall>w < k. \<forall>v < k. \<forall>i. workers ?p ! w = Awaiting i \<and> workers ?p ! v = Awaiting i \<longrightarrow> w = v"
    by (auto simp: enter_def split: if_splits)
  have e: "\<forall>i < ?n. i < idx ?p \<longrightarrow>
             out ?p ! i = Some (mapper_outputs items mapper ! i)
             \<or> (\<exists>w < k. workers ?p ! w = Awaiting i)"
    by (auto simp: enter_def)
  have f: "\<forall>i < ?n. idx ?p \<le> i \<longrightarrow> out ?p ! i = None"
    by simp
  have s: "settled (settle ?p) = (if all_returned (settle ?p) then Some (Inr (out (settle ?p))) else None)"
    by (simp add: settle_def all_returned_def)
  show ?thesis
    unfolding pool_inv_def settle_fields
    using w d e f s [unfolded settle_fields] by simp
qed

lemma start_pending:
  "pending (length items)
     (settle \<lparr>idx = k, out = replicate (length items) None,
              workers = map (enter (length items)) [0..<k], settled = None\<rparr>)
   = length items"
  by (simp add: pending_def settle_fields in_flight_def in_flight_spawn)


lemma mapper_output_nth:
  "i < length items \<Longrightarrow> mapper (items ! i) i = Inr v \<Longrightarrow> mapper_outputs items mapper ! i = v"
  by (simp add: mapper_outputs_def)

lemma complete_inv:
  fixes p :: "('e, 'b) pool"
  assumes inv: "pool_inv items mapper k p" and nt: "never_throws items mapper"
    and w: "w < k" and aw: "workers p ! w = Awaiting my"
  shows "pool_inv items mapper k (complete items mapper w p)"
    and "pending (length items) (complete items mapper w p) + 1 = pending (length items) p"
proof -
  let ?n = "length items"
  let ?mo = "mapper_outputs items mapper"
  have L1: "length (out p) = ?n" and L2: "length (workers p) = k"
    and W: "\<And>u. u < k \<Longrightarrow> (case workers p ! u of
             Awaiting i \<Rightarrow> i < ?n \<and> i < idx p \<and> out p ! i = None
           | Returned \<Rightarrow> ?n < idx p
           | Threw e \<Rightarrow> False)"
    and D: "\<And>u u' i. u < k \<Longrightarrow> u' < k \<Longrightarrow> workers p ! u = Awaiting i
              \<Longrightarrow> workers p ! u' = Awaiting i \<Longrightarrow> u = u'"
    and E: "\<And>i. i < ?n \<Longrightarrow> i < idx p \<Longrightarrow>
             out p ! i = Some (?mo ! i) \<or> (\<exists>u < k. workers p ! u = Awaiting i)"
    and F: "\<And>i. i < ?n \<Longrightarrow> idx p \<le> i \<Longrightarrow> out p ! i = None"
    and S: "settled p = (if all_returned p then Some (Inr (out p)) else None)"
    using inv unfolding pool_inv_def by blast+
  have my: "my < ?n" "my < idx p" "out p ! my = None"
    using W [OF w] aw by simp_all
  obtain v where mv: "mapper (items ! my) my = Inr v"
    using nt my(1) unfolding never_throws_def by (cases "mapper (items ! my) my") auto
  have vo: "?mo ! my = v" using my(1) mv by (rule mapper_output_nth)
  define q where "q = resume ?n w (p\<lparr>out := (out p)[my := Some v]\<rparr>)"
  have c: "complete items mapper w p = settle q"
    using aw mv w L2 by (simp add: complete_def q_def)
  have qi: "idx q = idx p + 1" and qo: "out q = (out p)[my := Some v]"
    and qw: "workers q = (workers p)[w := enter ?n (idx p)]" and qs: "settled q = settled p"
    by (simp_all add: q_def resume_def)
  have "\<not> all_returned p"
    using w aw L2 by (auto simp: all_returned_nth)
  then have sn: "settled q = None" using S qs by simp
  have W': "case workers q ! u of
             Awaiting i \<Rightarrow> i < ?n \<and> i < idx q \<and> out q ! i = None
           | Returned \<Rightarrow> ?n < idx q
           | Threw e \<Rightarrow> False" if u: "u < k" for u
  proof (cases "u = w")
    case True
    then have "workers q ! u = enter ?n (idx p)" using qw w L2 by simp
    moreover have "out q ! idx p = None" if "idx p < ?n"
      using that F [of "idx p"] my(2) qo by simp
    ultimately show ?thesis using qi by (auto simp: enter_def)
  next
    case False
    then have same: "workers q ! u = workers p ! u" using qw by simp
    show ?thesis
    proof (cases "workers p ! u")
      case (Awaiting i)
      then have "i \<noteq> my" using D [of u w i] u w aw False by blast
      then show ?thesis using W [OF u] Awaiting same qi qo by simp
    next
      case Returned
      then show ?thesis using W [OF u] same qi by simp
    next
      case (Threw e)
      then show ?thesis using W [OF u] by simp
    qed
  qed
  have D': "u = u'" if "u < k" "u' < k" "workers q ! u = Awaiting i" "workers q ! u' = Awaiting i"
    for u u' i
  proof -
    have fresh: False if "u1 < k" "u1 \<noteq> w" "workers p ! u1 = Awaiting j"
      "enter ?n (idx p) = Awaiting j" for u1 j
    proof -
      have "j = idx p" using that(4) by (auto simp: enter_def split: if_splits)
      then show False using W [OF that(1)] that(3) by simp
    qed
    show ?thesis
    proof (cases "u = w"; cases "u' = w")
      assume "u = w" "u' = w" then show ?thesis by simp
    next
      assume "u = w" "u' \<noteq> w"
      then show ?thesis using that qw w L2 fresh [of u' i] by simp
    next
      assume "u \<noteq> w" "u' = w"
      then show ?thesis using that qw w L2 fresh [of u i] by simp
    next
      assume "u \<noteq> w" "u' \<noteq> w"
      then show ?thesis using that qw D [of u u' i] by simp
    qed
  qed
  have E': "out q ! i = Some (?mo ! i) \<or> (\<exists>u < k. workers q ! u = Awaiting i)"
    if i: "i < ?n" "i < idx q" for i
  proof (cases "i = idx p")
    case True
    then have "workers q ! w = Awaiting i" using qw w L2 i(1) by (simp add: enter_def)
    then show ?thesis using w by blast
  next
    case False
    then have lt: "i < idx p" using i(2) qi by simp
    show ?thesis
    proof (cases "i = my")
      case True
      then show ?thesis using qo my(1) L1 vo by simp
    next
      case False
      from E [OF i(1) lt] show ?thesis
      proof
        assume "out p ! i = Some (?mo ! i)"
        then show ?thesis using qo False by simp
      next
        assume "\<exists>u < k. workers p ! u = Awaiting i"
        then obtain u where u: "u < k" "workers p ! u = Awaiting i" by blast
        then have "u \<noteq> w" using aw False by auto
        then have "workers q ! u = Awaiting i" using qw u by simp
        then show ?thesis using u(1) by blast
      qed
    qed
  qed
  have F': "out q ! i = None" if "i < ?n" "idx q \<le> i" for i
    using that F [of i] my(2) qo qi by simp
  have S': "settled (settle q) = (if all_returned (settle q) then Some (Inr (out (settle q))) else None)"
    using sn by (simp add: settle_def all_returned_def)
  show "pool_inv items mapper k (complete items mapper w p)"
    unfolding c pool_inv_def settle_fields
    using L1 L2 qo qw W' D' E' F' S' [unfolded settle_fields] by auto
  let ?x = "enter ?n (idx p) :: 'e worker"
  have "length (filter is_awaiting ((workers p)[w := ?x]))
          + (if is_awaiting (workers p ! w) then 1 else 0)
        = length (filter is_awaiting (workers p)) + (if is_awaiting ?x then 1 else 0)"
    by (rule filter_update_count) (simp add: w L2)
  then have "in_flight q + 1 = in_flight p + (if idx p < ?n then 1 else 0)"
    using aw qw by (simp add: in_flight_def enter_def)
  then show "pending ?n (complete items mapper w p) + 1 = pending ?n p"
    unfolding c pending_def settle_fields qi by (auto simp: min_def)
qed


lemma idle_pool:
  fixes p :: "('e, 'b) pool"
  assumes inv: "pool_inv items mapper k p" and k: "1 \<le> k" and z: "in_flight p = 0"
  shows "all_returned p" and "length items < idx p"
proof -
  have W: "\<And>u. u < k \<Longrightarrow> (case workers p ! u of
             Awaiting i \<Rightarrow> i < length items \<and> i < idx p \<and> out p ! i = None
           | Returned \<Rightarrow> length items < idx p
           | Threw e \<Rightarrow> False)"
    and L2: "length (workers p) = k"
    using inv unfolding pool_inv_def by blast+
  have na: "\<not> is_awaiting (workers p ! u)" if "u < k" for u
    using z that L2 in_flight_pos [of p] by auto
  have r: "workers p ! u = Returned" if "u < k" for u
    using W [OF that] na [OF that] by (cases "workers p ! u") simp_all
  then show "all_returned p" using L2 by (simp add: all_returned_nth)
  have "0 < k" using k by simp
  then show "length items < idx p" using W [of 0] r [of 0] by simp
qed

lemma event_inv:
  fixes p :: "('e, 'b) pool"
  assumes inv: "pool_inv items mapper k p" and nt: "never_throws items mapper" and k: "1 \<le> k"
  shows "pool_inv items mapper k (event items mapper p pick)
         \<and> pending (length items) (event items mapper p pick) = pending (length items) p - 1"
proof (cases "awaiting p")
  case Nil
  then have "in_flight p = 0" by (simp add: awaiting_empty)
  then have "pending (length items) p = 0"
    using idle_pool [OF inv k] by (simp add: pending_def)
  then show ?thesis using Nil inv by (simp add: event_def)
next
  case (Cons a as)
  define w where "w = (a # as) ! (pick mod length (a # as))"
  have "w \<in> set (awaiting p)" unfolding w_def Cons by (rule nth_mem) simp
  then have w: "w < length (workers p)" "is_awaiting (workers p ! w)"
    by (simp_all add: awaiting_set)
  then obtain my where my: "workers p ! w = Awaiting my"
    by (cases "workers p ! w") simp_all
  have "length (workers p) = k" using inv unfolding pool_inv_def by blast
  then have wk: "w < k" using w(1) by simp
  have e: "event items mapper p pick = complete items mapper w p"
    using Cons by (simp add: event_def w_def)
  show ?thesis
    unfolding e using complete_inv [OF inv nt wk my] by simp
qed

lemma run_inv:
  fixes p0 :: "('e, 'b) pool"
  assumes "pool_inv items mapper k p0" "never_throws items mapper" "1 \<le> k"
  shows "pool_inv items mapper k (foldl (event items mapper) p0 picks)
         \<and> pending (length items) (foldl (event items mapper) p0 picks)
           = pending (length items) p0 - length picks"
proof (induction picks rule: rev_induct)
  case Nil
  then show ?case using assms(1) by simp
next
  case (snoc pick picks)
  then show ?case
    using event_inv [OF _ assms(2,3), of "foldl (event items mapper) p0 picks" pick] by simp
qed

lemma mapLimit_start_eq:
  "limit < 4294967296 \<Longrightarrow>
   mapLimit_start items limit
   = settle \<lparr>idx = nat (max 1 limit), out = replicate (length items) None,
             workers = map (enter (length items)) [0..<nat (max 1 limit)], settled = None\<rparr>"
  by (simp add: mapLimit_start_def spawn_closed)

lemma mapLimit_run_range:
  fixes mapper :: "'a \<Rightarrow> nat \<Rightarrow> 'e + 'b"
  assumes "4294967296 \<le> limit"
  shows "mapLimit_run items limit mapper picks
         = \<lparr>idx = 0, out = replicate (length items) None, workers = [],
            settled = Some (Inl RangeError)\<rparr>"
proof -
  have s: "mapLimit_start items limit
           = (\<lparr>idx = 0, out = replicate (length items) None, workers = [],
               settled = Some (Inl RangeError)\<rparr> :: ('e, 'b) pool)"
    using assms by (simp add: mapLimit_start_def)
  have "foldl (event items mapper)
          (\<lparr>idx = 0, out = replicate (length items) None, workers = [],
            settled = Some (Inl RangeError)\<rparr> :: ('e, 'b) pool) picks
        = \<lparr>idx = 0, out = replicate (length items) None, workers = [],
           settled = Some (Inl RangeError)\<rparr>"
    by (induction picks) (simp_all add: event_def awaiting_def)
  then show ?thesis by (simp add: mapLimit_run_def s)
qed

lemma pool_run:
  assumes "never_throws items mapper" and lt: "limit < 4294967296"
  shows "pool_inv items mapper (nat (max 1 limit)) (mapLimit_run items limit mapper picks)"
    and "pending (length items) (mapLimit_run items limit mapper picks)
           = length items - length picks"
proof -
  have k: "1 \<le> nat (max 1 limit)" by simp
  show "pool_inv items mapper (nat (max 1 limit)) (mapLimit_run items limit mapper picks)"
    and "pending (length items) (mapLimit_run items limit mapper picks)
           = length items - length picks"
    unfolding mapLimit_run_def mapLimit_start_eq [OF lt]
    using run_inv [OF start_inv [OF k] assms(1) k, where picks = picks]
    by (simp_all add: start_pending)
qed

lemma mapper_outputs_length: "length (mapper_outputs items mapper) = length items"
  by (simp add: mapper_outputs_def)

lemma pool_done:
  fixes p :: "('e, 'b) pool"
  assumes inv: "pool_inv items mapper k p" and k: "1 \<le> k" and z: "pending (length items) p = 0"
  shows "settled p = Some (Inr (map Some (mapper_outputs items mapper)))" and "in_flight p = 0"
proof -
  show f: "in_flight p = 0" using z by (simp add: pending_def)
  note idle = idle_pool [OF inv k f]
  have E: "\<And>i. i < length items \<Longrightarrow> i < idx p \<Longrightarrow>
             out p ! i = Some (mapper_outputs items mapper ! i)
             \<or> (\<exists>u < k. workers p ! u = Awaiting i)"
    and L1: "length (out p) = length items" and L2: "length (workers p) = k"
    and S: "settled p = (if all_returned p then Some (Inr (out p)) else None)"
    using inv unfolding pool_inv_def by blast+
  have "out p ! i = Some (mapper_outputs items mapper ! i)" if "i < length items" for i
  proof -
    have "\<not> (\<exists>u < k. workers p ! u = Awaiting i)"
      using idle(1) L2 by (auto simp: all_returned_nth)
    moreover have "i < idx p" using that idle(2) by simp
    ultimately show ?thesis using E [OF that] by blast
  qed
  then have "out p = map Some (mapper_outputs items mapper)"
    using L1 by (intro nth_equalityI) (simp_all add: mapper_outputs_length)
  then show "settled p = Some (Inr (map Some (mapper_outputs items mapper)))"
    using S idle(1) by simp
qed

lemma pool_busy:
  fixes p :: "('e, 'b) pool"
  assumes inv: "pool_inv items mapper k p" and k: "1 \<le> k" and z: "0 < pending (length items) p"
  shows "settled p = None" and "0 < in_flight p"
proof -
  show f: "0 < in_flight p"
  proof (rule ccontr)
    assume "\<not> 0 < in_flight p"
    then have "in_flight p = 0" by simp
    then have "length items < idx p" "in_flight p = 0" using idle_pool [OF inv k] by simp_all
    then show False using z by (simp add: pending_def)
  qed
  have L2: "length (workers p) = k"
    and S: "settled p = (if all_returned p then Some (Inr (out p)) else None)"
    using inv unfolding pool_inv_def by blast+
  have "\<not> all_returned p"
    using f in_flight_pos [of p] by (auto simp: all_returned_nth)
  then show "settled p = None" using S by simp
qed

lemma in_flight_bound: "in_flight p \<le> length (workers p)"
  by (simp add: in_flight_def)


lemma never_throws_output:
  "never_throws items mapper \<Longrightarrow> i < length items
   \<Longrightarrow> mapper (items ! i) i = Inr (mapper_outputs items mapper ! i)"
  unfolding never_throws_def mapper_outputs_def
  by (cases "mapper (items ! i) i") auto

lemma slot_value:
  fixes p :: "('e, 'b) pool"
  assumes inv: "pool_inv items mapper k p" and i: "i < length items"
  shows "out p ! i = None \<or> out p ! i = Some (mapper_outputs items mapper ! i)"
proof (cases "i < idx p")
  case False
  then show ?thesis using inv i unfolding pool_inv_def by simp
next
  case True
  have W: "\<And>u. u < k \<Longrightarrow> (case workers p ! u of
             Awaiting i \<Rightarrow> i < length items \<and> i < idx p \<and> out p ! i = None
           | Returned \<Rightarrow> length items < idx p
           | Threw e \<Rightarrow> False)"
    and E: "\<And>i. i < length items \<Longrightarrow> i < idx p \<Longrightarrow>
             out p ! i = Some (mapper_outputs items mapper ! i)
             \<or> (\<exists>u < k. workers p ! u = Awaiting i)"
    using inv unfolding pool_inv_def by blast+
  from E [OF i True] show ?thesis
  proof
    assume "\<exists>u < k. workers p ! u = Awaiting i"
    then obtain u where "u < k" "workers p ! u = Awaiting i" by blast
    then show ?thesis using W [of u] by simp
  qed simp
qed

text \<open>
  C1, as stated, fails for a mapper that throws: \<open>Promise.all\<close> rejects with the first
  worker that throws, so \<open>mapLimit\<close> completes, rejected and with no array, while another
  task is still in flight. Two items, limit 2, the mapper call for item 0 throws. It
  also fails for a limit of \<open>2^32\<close>, with a mapper that never throws: the array of
  workers cannot be made, no mapper call is ever started and the promise is rejected.
\<close>

theorem C1_pool_rejects_early_counterexample:
  "settled (mapLimit_run [0, 1] 2 fails_first [0]) = Some (Inl (Thrown ()))
   \<and> in_flight (mapLimit_run [0, 1] 2 fails_first [0]) = 1
   \<and> workers (mapLimit_run [0, 1] 2 fails_first [0]) = [Threw (), Awaiting 1]
   \<and> out (mapLimit_run [0, 1] 2 fails_first [0]) = [None, None]
   \<and> settled (mapLimit_run [3, 4] 4294967296 doubles [0, 0]) = Some (Inl RangeError)
   \<and> workers (mapLimit_run [3, 4] 4294967296 doubles [0, 0]) = []
   \<and> out (mapLimit_run [3, 4] 4294967296 doubles [0, 0]) = [None, None]"
proof -
  have "settled (mapLimit_run [0, 1] 2 fails_first [0]) = Some (Inl (Thrown ()))
   \<and> in_flight (mapLimit_run [0, 1] 2 fails_first [0]) = 1
   \<and> workers (mapLimit_run [0, 1] 2 fails_first [0]) = [Threw (), Awaiting 1]
   \<and> out (mapLimit_run [0, 1] 2 fails_first [0]) = [None, None]"
    by (simp add: mapLimit_run_def mapLimit_start_eq settle_def all_returned_def enter_def
      event_def awaiting_def complete_def fails_first_def reject_def in_flight_def
      eval_nat_numeral)
  moreover have "mapLimit_run [3, 4] 4294967296 doubles [0, 0]
     = \<lparr>idx = 0, out = replicate (length [3 :: nat, 4]) None, workers = [],
        settled = Some (Inl RangeError)\<rparr>"
    by (rule mapLimit_run_range) simp
  ultimately show ?thesis by (simp add: eval_nat_numeral)
qed

text \<open>
  C1 (amended): for every limit \<open>K\<close> with \<open>1 \<le> K < 2^32\<close>, every list of \<open>N\<close> items and
  every mapper none of whose calls throws, in whatever order the calls settle: at no
  moment are more than \<open>K\<close> calls in flight, and no two workers run the same index; a
  filled slot \<open>i\<close> of \<open>out\<close> always holds the mapper's output for item \<open>i\<close>; the promise
  is unsettled as long as fewer than \<open>N\<close> calls have settled; and once \<open>N\<close> have, it is
  fulfilled with the array of exactly the \<open>N\<close> outputs, in the order of the items.
\<close>

theorem C1_bounded_pool:
  fixes mapper :: "'a \<Rightarrow> nat \<Rightarrow> 'e + 'b"
  assumes "1 \<le> limit" "limit < 4294967296" "never_throws items mapper"
  shows "let p = mapLimit_run items limit mapper picks; results = mapper_outputs items mapper in
     in_flight p \<le> nat limit
     \<and> (\<forall>w < nat limit. \<forall>v < nat limit. \<forall>i.
            workers p ! w = Awaiting i \<and> workers p ! v = Awaiting i \<longrightarrow> w = v)
     \<and> length (out p) = length items \<and> length results = length items
     \<and> (\<forall>i < length items. mapper (items ! i) i = Inr (results ! i))
     \<and> (\<forall>i < length items. out p ! i = None \<or> out p ! i = Some (results ! i))
     \<and> (length picks < length items \<longrightarrow> settled p = None \<and> 0 < in_flight p)
     \<and> (length items \<le> length picks \<longrightarrow> settled p = Some (Inr (map Some results)) \<and> in_flight p = 0)"
proof -
  define p where "p = mapLimit_run items limit mapper picks"
  have k: "nat (max 1 limit) = nat limit" "1 \<le> nat limit" using assms(1) by simp_all
  have inv: "pool_inv items mapper (nat limit) p"
    and pend: "pending (length items) p = length items - length picks"
    using pool_run [OF assms(3,2), of picks] k unfolding p_def by simp_all
  have "in_flight p \<le> nat limit"
    using in_flight_bound [of p] inv unfolding pool_inv_def by simp
  moreover have "\<forall>w < nat limit. \<forall>v < nat limit. \<forall>i.
            workers p ! w = Awaiting i \<and> workers p ! v = Awaiting i \<longrightarrow> w = v"
    and "length (out p) = length items"
    using inv unfolding pool_inv_def by blast+
  moreover have "\<forall>i < length items. out p ! i = None
                   \<or> out p ! i = Some (mapper_outputs items mapper ! i)"
    using slot_value [OF inv] by blast
  moreover have "length picks < length items \<longrightarrow> settled p = None \<and> 0 < in_flight p"
    using pool_busy [OF inv k(2)] pend by simp
  moreover have "length items \<le> length picks \<longrightarrow>
      settled p = Some (Inr (map Some (mapper_outputs items mapper))) \<and> in_flight p = 0"
    using pool_done [OF inv k(2)] pend by simp
  ultimately show ?thesis
    unfolding Let_def p_def [symmetric]
    using never_throws_output [OF assms(3)] by (simp add: mapper_outputs_length)
qed

lemma doubles_never_throws: "never_throws items doubles"
  by (simp add: never_throws_def doubles_def)

theorem C1_bounded_pool_witness:
  "settled (mapLimit_run [3, 4, 5] 2 doubles [1, 0, 0]) = Some (Inr [Some 6, Some 8, Some 10])
   \<and> settled (mapLimit_run [3, 4, 5] 2 doubles [1, 0]) = None
   \<and> in_flight (mapLimit_run [3, 4, 5] 2 doubles [1]) \<le> 2"
proof -
  have r: "mapper_outputs [3, 4, 5] doubles = [6, 8, 10]"
    by (simp add: mapper_outputs_def doubles_def eval_nat_numeral)
  note t = C1_bounded_pool [OF _ _ doubles_never_throws, of 2 "[3, 4, 5]", unfolded Let_def, simplified]
  show ?thesis
    using t [of "[1, 0, 0]"] t [of "[1, 0]"] t [of "[1]"] by (simp add: r)
qed

text \<open>
  C9, as stated, fails for a limit of \<open>2^32\<close>: \<open>max(1, limit)\<close> workers cannot be made,
  \<open>Array.from\<close> throws before a single worker starts, no task is processed and
  \<open>mapLimit\<close> rejects. It also fails, with limit 0, for a mapper that throws: the one
  worker throws on item 0, the promise is rejected, item 1 is never processed and no
  array is returned.
\<close>

theorem C9_no_worker_counterexample:
  "workers (mapLimit_run [3, 4] 4294967296 doubles [0, 0]) = []
   \<and> settled (mapLimit_run [3, 4] 4294967296 doubles [0, 0]) = Some (Inl RangeError)
   \<and> out (mapLimit_run [3, 4] 4294967296 doubles [0, 0]) = [None, None]
   \<and> idx (mapLimit_run [3, 4] 4294967296 doubles [0, 0]) = 0
   \<and> settled (mapLimit_run [0, 1] 0 fails_first [0, 0, 0]) = Some (Inl (Thrown ()))
   \<and> out (mapLimit_run [0, 1] 0 fails_first [0, 0, 0]) = [None, None]
   \<and> idx (mapLimit_run [0, 1] 0 fails_first [0, 0, 0]) = 1
   \<and> in_flight (mapLimit_run [0, 1] 0 fails_first [0, 0, 0]) = 0"
proof -
  have "mapLimit_run [3, 4] 4294967296 doubles [0, 0]
     = \<lparr>idx = 0, out = replicate (length [3 :: nat, 4]) None, workers = [],
        settled = Some (Inl RangeError)\<rparr>"
    by (rule mapLimit_run_range) simp
  moreover have "settled (mapLimit_run [0, 1] 0 fails_first [0, 0, 0]) = Some (Inl (Thrown ()))
   \<and> out (mapLimit_run [0, 1] 0 fails_first [0, 0, 0]) = [None, None]
   \<and> idx (mapLimit_run [0, 1] 0 fails_first [0, 0, 0]) = 1
   \<and> in_flight (mapLimit_run [0, 1] 0 fails_first [0, 0, 0]) = 0"
    by (simp add: mapLimit_run_def mapLimit_start_eq settle_def all_returned_def enter_def
      event_def awaiting_def complete_def fails_first_def reject_def in_flight_def
      eval_nat_numeral)
  ultimately show ?thesis by (simp add: eval_nat_numeral)
qed

text \<open>
  C9 (amended): for every integer limit below \<open>2^32\<close>, zero and the negative ones
  included, \<open>mapLimit\<close> starts \<open>max(1, limit)\<close> workers; with a limit below 1 it runs
  exactly as with limit 1; and, for a limit below \<open>2^32\<close> and a mapper none of whose
  calls throws, it returns nothing before every call has settled and then returns the
  fully populated array. From \<open>2^32\<close> on it starts no worker and rejects with a
  \<open>RangeError\<close>.
\<close>

theorem C9_limit_clamped:
  fixes mapper :: "'a \<Rightarrow> nat \<Rightarrow> 'e + 'b"
  shows "(limit < 4294967296 \<longrightarrow>
            length (workers (mapLimit_start items limit :: ('e, 'b) pool)) = nat (max 1 limit))
   \<and> (limit \<le> 1 \<longrightarrow> mapLimit_run items limit mapper picks = mapLimit_run items 1 mapper picks)
   \<and> (never_throws items mapper \<and> limit < 4294967296 \<longrightarrow>
        (length items \<le> length picks \<longrightarrow>
           settled (mapLimit_run items limit mapper picks)
             = Some (Inr (map Some (mapper_outputs items mapper))))
        \<and> (length picks < length items \<longrightarrow>
           settled (mapLimit_run items limit mapper picks) = None))
   \<and> (4294967296 \<le> limit \<longrightarrow>
        workers (mapLimit_run items limit mapper picks) = []
        \<and> settled (mapLimit_run items limit mapper picks) = Some (Inl RangeError))"
proof -
  have k: "1 \<le> nat (max 1 limit)" by simp
  have "length (workers (mapLimit_start items limit :: ('e, 'b) pool)) = nat (max 1 limit)"
    if "limit < 4294967296"
    by (simp add: mapLimit_start_eq [OF that] settle_fields)
  moreover have "mapLimit_run items limit mapper picks = mapLimit_run items 1 mapper picks"
    if "limit \<le> 1"
  proof -
    have "max 1 limit = max 1 1" using that by simp
    then show ?thesis by (simp add: mapLimit_run_def mapLimit_start_def)
  qed
  moreover have "settled (mapLimit_run items limit mapper picks)
             = Some (Inr (map Some (mapper_outputs items mapper)))"
    if "never_throws items mapper" "limit < 4294967296" "length items \<le> length picks"
    using pool_done(1) [OF pool_run(1) [OF that(1,2)] k] pool_run(2) [OF that(1,2)] that(3)
    by simp
  moreover have "settled (mapLimit_run items limit mapper picks) = None"
    if "never_throws items mapper" "limit < 4294967296" "length picks < length items"
    using pool_busy(1) [OF pool_run(1) [OF that(1,2)] k] pool_run(2) [OF that(1,2)] that(3)
    by simp
  moreover have "workers (mapLimit_run items limit mapper picks) = []
        \<and> settled (mapLimit_run items limit mapper picks) = Some (Inl RangeError)"
    if "4294967296 \<le> limit"
    by (simp add: mapLimit_run_range [OF that])
  ultimately show ?thesis by blast
qed

theorem C9_limit_clamped_witness:
  "length (workers (mapLimit_start [3, 4 :: nat] (- 3) :: (unit, nat) pool)) = 1
   \<and> mapLimit_run [3, 4] (- 3) doubles [0, 0] = mapLimit_run [3, 4] 1 doubles [0, 0]
   \<and> settled (mapLimit_run [3, 4] (- 3) doubles [0, 0]) = Some (Inr [Some 6, Some 8])
   \<and> settled (mapLimit_run [3, 4] (- 3) doubles [0]) = None
   \<and> settled (mapLimit_run [3, 4] 4294967297 doubles [0]) = Some (Inl RangeError)"
proof -
  have r: "mapper_outputs [3, 4] doubles = [6, 8]"
    by (simp add: mapper_outputs_def doubles_def eval_nat_numeral)
  note nt = doubles_never_throws [of "[3, 4]"]
  note t = C9_limit_clamped [of "- 3" "[3, 4]" doubles]
  have a: "length (workers (mapLimit_start [3, 4 :: nat] (- 3) :: (unit, nat) pool)) = 1"
    using t [THEN conjunct1] by simp
  have b: "mapLimit_run [3, 4] (- 3) doubles [0, 0] = mapLimit_run [3, 4] 1 doubles [0, 0]"
    using t [of "[0, 0]", THEN conjunct2, THEN conjunct1] by simp
  have c: "settled (mapLimit_run [3, 4] (- 3) doubles [0, 0]) = Some (Inr [Some 6, Some 8])"
    using t [of "[0, 0]", THEN conjunct2, THEN conjunct2, THEN conjunct1] nt by (simp add: r)
  have d: "settled (mapLimit_run [3, 4] (- 3) doubles [0]) = None"
    using t [of "[0]", THEN conjunct2, THEN conjunct2, THEN conjunct1] nt by simp
  have e: "settled (mapLimit_run [3, 4] 4294967297 doubles [0]) = Some (Inl RangeError)"
    using C9_limit_clamped [of 4294967297 "[3, 4]" doubles "[0]",
            THEN conjunct2, THEN conjunct2, THEN conjunct2] by simp
  show ?thesis by (intro conjI a b c d e)
qed

section \<open>Fetching the variants of one product: properties\<close>


lemma variant_mapper_output:
  assumes "i < length tasks" "tasks ! i = (c, sz)"
  shows "mapper_outputs tasks (variant_mapper ctx fetched err_text) ! i
         = (case fetched (task_url ctx c sz) i of
              Inr j \<Rightarrow> (case ok_row ctx c sz j of
                          Some row \<Rightarrow> row
                        | None \<Rightarrow> error_row ctx c sz (err_text TypeError))
            | Inl e \<Rightarrow> error_row ctx c sz (err_text (Thrown e)))"
  using assms
  by (simp add: mapper_outputs_def variant_mapper_def split: sum.splits option.splits)

lemma of_char_small: "(of_char c :: nat) < 2 ^ 16"
proof -
  have "(of_char c :: nat) mod 256 < 256" by (rule mod_less_divisor) simp
  then have "(of_char c :: nat) < 256" by (simp only: of_char_mod_256)
  then have "(of_char c :: nat) < 65536" by linarith
  then show ?thesis by simp
qed

lemma unat_of_char: "unat (of_char c :: 16 word) = of_char c"
proof -
  have "(of_char c :: 16 word) = of_nat (of_char c)" by (simp only: of_nat_of_char)
  then have "unat (of_char c :: 16 word) = (of_char c :: nat) mod 2 ^ 16"
    by (simp only: unat_of_nat) simp
  then show ?thesis using of_char_small [of c] by simp
qed

lemma of_char_word_inj: "(of_char c :: 16 word) = of_char d \<longleftrightarrow> c = d"
proof
  assume "(of_char c :: 16 word) = of_char d"
  then have "unat (of_char c :: 16 word) = unat (of_char d :: 16 word)" by (rule arg_cong)
  then have "(of_char c :: nat) = of_char d" by (simp only: unat_of_char)
  then show "c = d" by (rule of_char_eqI)
next
  assume "c = d"
  then show "(of_char c :: 16 word) = of_char d" by (rule arg_cong)
qed

lemma js_eq_iff: "js s = js t \<longleftrightarrow> s = t"
proof -
  have "inj (of_char :: char \<Rightarrow> 16 word)"
    by (rule injI) (simp only: of_char_word_inj)
  then have "inj (map (of_char :: char \<Rightarrow> 16 word))" by (rule inj_mapI)
  then show ?thesis unfolding js_def by (rule inj_eq)
qed


lemma key_test: "js ''color_id'' \<noteq> js ''size_id''" "js ''ok'' = js ''ok''"
  by (simp_all add: js_eq_iff)

lemma lookup_append_in: "k \<in> fst ` set ps \<Longrightarrow> lookup (ps @ qs) k = lookup ps k"
  by (induction ps) force+

lemma lookup_append_out: "k \<notin> fst ` set ps \<Longrightarrow> lookup (ps @ qs) k = lookup qs k"
  by (induction ps) auto

lemma lookup_append:
  "lookup (ps @ qs) k = (if k \<in> fst ` set ps then lookup ps k else lookup qs k)"
  by (simp add: lookup_append_in lookup_append_out)

lemma row_head_keys:
  "lookup (row_head ctx c sz) (js ''color_id'') = Str (c_id c)"
  "lookup (row_head ctx c sz) (js ''size_id'') = Str (size_id_or_NS sz)"
  "js ''color_id'' \<in> fst ` set (row_head ctx c sz)"
  "js ''size_id'' \<in> fst ` set (row_head ctx c sz)"
  "js ''error'' \<notin> fst ` set (row_head ctx c sz)"
  "js ''ok'' \<notin> fst ` set (row_head ctx c sz)"
  by (simp_all add: row_head_def js_eq_iff)

lemma ok_row_fields:
  assumes "ok_row ctx c sz j = Some row"
  shows "get row (js ''ok'') = Bool True"
    "get row (js ''error'') = Str []"
    "get row (js ''color_id'') = Str (c_id c)"
    "get row (js ''size_id'') = Str (size_id_or_NS sz)"
proof -
  obtain sku rest where row: "row = Obj ([(js ''ok'', Bool True)] @ row_head ctx c sz
                                          @ (js ''variant_sku'', Str sku) # rest)"
    and rest: "lookup rest (js ''error'') = Str []"
    using assms unfolding ok_row_def Let_def by (auto simp: js_eq_iff)
  show "get row (js ''ok'') = Bool True"
    "get row (js ''error'') = Str []"
    "get row (js ''color_id'') = Str (c_id c)"
    "get row (js ''size_id'') = Str (size_id_or_NS sz)"
    unfolding row get.simps lookup_append
    by (simp_all add: row_head_keys js_eq_iff rest)
qed

lemma error_row_fields:
  "get (error_row ctx c sz msg) (js ''ok'') = Bool False"
  "get (error_row ctx c sz msg) (js ''error'') = Str msg"
  "get (error_row ctx c sz msg) (js ''color_id'') = Str (c_id c)"
  "get (error_row ctx c sz msg) (js ''size_id'') = Str (size_id_or_NS sz)"
  unfolding error_row_def get.simps lookup_append
  by (simp_all add: row_head_keys js_eq_iff)









text \<open>
  The grouping that follows \<open>results\<close>. Over the rows of the inner pool it throws exactly
  when the id of some task's color is a name every object inherits, whatever the rows
  hold otherwise; so \<open>extractOneProduct\<close> returns its rows for every other product and
  throws a \<open>TypeError\<close> for such a one.
\<close>

lemma assign_keys: "fst ` set (assign ps k v) = insert k (fst ` set ps)"
  by (induction ps) force+

lemma map_of_inherited:
  "fst ` set matrix \<inter> set inherited_names = {} \<Longrightarrow> cid \<in> set inherited_names
   \<Longrightarrow> map_of matrix cid = None"
  by (metis disjoint_iff map_of_eq_None_iff)

lemma group_row_strings:
  assumes "get row (js ''color_id'') = Str cid" "get row (js ''size_id'') = Str sid"
    and "fst ` set matrix \<inter> set inherited_names = {}"
  shows "(group_row matrix (Some row) = None \<longleftrightarrow> cid \<in> set inherited_names)
       \<and> (\<forall>m. group_row matrix (Some row) = Some m
              \<longrightarrow> fst ` set m \<inter> set inherited_names = {})"
proof -
  have r: "row \<noteq> Undefined" "row \<noteq> Null" using assms(1) by auto
  show ?thesis
  proof (cases "cid \<in> set inherited_names")
    case True
    then show ?thesis
      using r assms map_of_inherited [OF assms(3) True] by (simp add: group_row_def)
  next
    case False
    then show ?thesis
      using r assms
      by (auto simp: group_row_def assign_keys split: option.splits)
  qed
qed

lemma group_rows_strings:
  assumes "\<forall>row \<in> set rows. \<exists>cid sid. get row (js ''color_id'') = Str cid
                                       \<and> get row (js ''size_id'') = Str sid"
    and "fst ` set matrix \<inter> set inherited_names = {}"
  shows "group_rows matrix (map Some rows) = None
         \<longleftrightarrow> (\<exists>row \<in> set rows. \<exists>cid. get row (js ''color_id'') = Str cid
                                      \<and> cid \<in> set inherited_names)"
  using assms
proof (induction rows arbitrary: matrix)
  case Nil
  then show ?case by simp
next
  case (Cons row rows)
  obtain cid sid where k: "get row (js ''color_id'') = Str cid" "get row (js ''size_id'') = Str sid"
    using Cons.prems(1) by auto
  note g = group_row_strings [OF k Cons.prems(2)]
  show ?case
  proof (cases "group_row matrix (Some row)")
    case None
    then show ?thesis using g k by auto
  next
    case (Some m)
    then have "cid \<notin> set inherited_names" "fst ` set m \<inter> set inherited_names = {}"
      using g by auto
    then show ?thesis
      using Some k Cons.IH [of m] Cons.prems(1) by auto
  qed
qed

lemma variant_rows_grouping:
  "group_rows [] (map Some (mapper_outputs tasks (variant_mapper ctx fetched err_text))) = None
   \<longleftrightarrow> (\<exists>t \<in> set tasks. c_id (fst t) \<in> set inherited_names)"
proof -
  let ?rows = "mapper_outputs tasks (variant_mapper ctx fetched err_text)"
  have row: "get (?rows ! i) (js ''color_id'') = Str (c_id (fst (tasks ! i)))
           \<and> get (?rows ! i) (js ''size_id'') = Str (size_id_or_NS (snd (tasks ! i)))"
    if i: "i < length tasks" for i
  proof -
    let ?c = "fst (tasks ! i)" and ?sz = "snd (tasks ! i)"
    have ri: "?rows ! i = (case fetched (task_url ctx ?c ?sz) i of
                  Inr j \<Rightarrow> (case ok_row ctx ?c ?sz j of
                              Some row \<Rightarrow> row
                            | None \<Rightarrow> error_row ctx ?c ?sz (err_text TypeError))
                | Inl e \<Rightarrow> error_row ctx ?c ?sz (err_text (Thrown e)))"
      by (rule variant_mapper_output [OF i]) simp
    show ?thesis
    proof (cases "fetched (task_url ctx ?c ?sz) i")
      case (Inl e)
      then show ?thesis using ri by (simp add: error_row_fields)
    next
      case (Inr j)
      show ?thesis
      proof (cases "ok_row ctx ?c ?sz j")
        case None
        then show ?thesis using ri Inr by (simp add: error_row_fields)
      next
        case (Some r)
        then show ?thesis using ri Inr ok_row_fields [OF Some] by simp
      qed
    qed
  qed
  have len: "length ?rows = length tasks" by (rule mapper_outputs_length)
  have all: "\<forall>row \<in> set ?rows. \<exists>cid sid. get row (js ''color_id'') = Str cid
                                       \<and> get row (js ''size_id'') = Str sid"
    using row len by (auto simp: in_set_conv_nth)
  have "group_rows [] (map Some ?rows) = None
        \<longleftrightarrow> (\<exists>r \<in> set ?rows. \<exists>cid. get r (js ''color_id'') = Str cid
                                      \<and> cid \<in> set inherited_names)"
    by (rule group_rows_strings [OF all]) simp
  also have "\<dots> \<longleftrightarrow> (\<exists>i < length tasks. c_id (fst (tasks ! i)) \<in> set inherited_names)"
  proof
    assume "\<exists>r \<in> set ?rows. \<exists>cid. get r (js ''color_id'') = Str cid
                                      \<and> cid \<in> set inherited_names"
    then obtain r cid where r: "r \<in> set ?rows" "get r (js ''color_id'') = Str cid"
      "cid \<in> set inherited_names" by blast
    from r(1) obtain i where i: "i < length ?rows" "?rows ! i = r"
      by (auto simp: in_set_conv_nth)
    then have "cid = c_id (fst (tasks ! i))" using row [of i] len r(2) by simp
    then show "\<exists>i < length tasks. c_id (fst (tasks ! i)) \<in> set inherited_names"
      using i(1) len r(3) by auto
  next
    assume "\<exists>i < length tasks. c_id (fst (tasks ! i)) \<in> set inherited_names"
    then obtain i where i: "i < length tasks" "c_id (fst (tasks ! i)) \<in> set inherited_names"
      by blast
    have "?rows ! i \<in> set ?rows" using i(1) len by simp
    then show "\<exists>r \<in> set ?rows. \<exists>cid. get r (js ''color_id'') = Str cid
                                      \<and> cid \<in> set inherited_names"
      using row [OF i(1)] i(2) by blast
  qed
  also have "\<dots> \<longleftrightarrow> (\<exists>t \<in> set tasks. c_id (fst t) \<in> set inherited_names)"
  proof
    assume "\<exists>i < length tasks. c_id (fst (tasks ! i)) \<in> set inherited_names"
    then obtain i where "i < length tasks" "c_id (fst (tasks ! i)) \<in> set inherited_names"
      by blast
    then show "\<exists>t \<in> set tasks. c_id (fst t) \<in> set inherited_names"
      using nth_mem by blast
  next
    assume "\<exists>t \<in> set tasks. c_id (fst t) \<in> set inherited_names"
    then obtain t where t: "t \<in> set tasks" "c_id (fst t) \<in> set inherited_names" by blast
    from t(1) obtain i where "i < length tasks" "tasks ! i = t"
      by (auto simp: in_set_conv_nth)
    then show "\<exists>i < length tasks. c_id (fst (tasks ! i)) \<in> set inherited_names"
      using t(2) by auto
  qed
  finally show ?thesis .
qed

section \<open>Batch drivers: properties\<close>

lemma escape_cells:
  "csvEscape (Str t) = Some (escape_text t)" "csvEscape (price_cell p) = Some (escape_price p)"
  by (simp_all add: csvEscape_def price_cell_def escape_price_def split: option.splits)

lemma variant_line_csv: "csv_line (variant_cells v) = Some (variant_line v)"
  by (simp add: csv_line_def variant_cells_def variant_line_def escape_cells)

lemma append_variants:
  "foldl (\<lambda>s v. s\<lparr>csv := csv s @ [variant_line v]\<rparr>) s vs
   = s\<lparr>csv := csv s @ map variant_line vs\<rparr>"
  by (induction vs arbitrary: s) simp_all

lemma save_product_sinks:
  "i < length inputRows \<Longrightarrow>
   save_product extractProduct err_text stringify stamp i (inputRows ! i) s
   = s\<lparr>jsonl := jsonl s @ [summary_line extractProduct err_text stringify stamp inputRows i],
       csv := csv s @ variant_lines extractProduct inputRows i\<rparr>"
  by (simp add: save_product_def summary_line_def variant_lines_def append_variants
      split: sum.splits prod.splits)

lemma batch_steps:
  "k \<le> length inputRows \<Longrightarrow>
   (batch_step extractProduct err_text stringify stamp inputRows ^^ k) (0, s0)
   = (k, s0\<lparr>jsonl := jsonl s0
                 @ map (summary_line extractProduct err_text stringify stamp inputRows) [0..<k],
              csv := csv s0 @ concat (map (variant_lines extractProduct inputRows) [0..<k])\<rparr>)"
proof (induction k)
  case 0
  show ?case by simp
next
  case (Suc k)
  then have "k < length inputRows" by simp
  then show ?case using Suc
    by (simp add: batch_step_def save_product_sinks)
qed

lemma product_mapper_never_throws: "never_throws jobs (product_mapper extractOne err_text)"
  by (auto simp: never_throws_def product_mapper_def split: sum.splits)

text \<open>
  C5, as stated, fails on the driver that writes one combined JSON and one combined CSV:
  after its first product has settled, with its row, neither file has been written.
\<close>

theorem C5_combined_driver_counterexample:
  "bulk_files demo_extractOne no_text demo_stringify [] demo_jobs 1 [0]
     = \<lparr> json_file = None, csv_file = None \<rparr>
   \<and> bulk_settled demo_extractOne no_text demo_jobs 1 [0]
     = [Some (Obj [(js ''ok'', Bool True),
                   (js ''flatRows'', Arr [Obj [(js ''pid'', Str (js ''P1''))]])]),
        None]"
  by (simp add: bulk_files_def bulk_settled_def mapLimit_run_def mapLimit_start_eq settle_def
      all_returned_def enter_def event_def awaiting_def complete_def resume_def
      product_mapper_def demo_extractOne_def demo_jobs_def eval_nat_numeral)

text \<open>
  C5 (amended): the driver that saves product by product appends, in the pass of the loop
  that processes a product and before the next pass, that product's one summary line to
  the JSONL file and all of its variant rows to the CSV file (a failed product: its error
  summary and no rows); so after \<open>k\<close> of \<open>n\<close> passes the files hold what they held before
  plus the complete entries of products \<open>1..k\<close> and nothing of the later ones. The
  driver that writes combined files writes nothing until every product has settled and
  then, with a product concurrency below \<open>2^32\<close>, writes the JSON file whole and the CSV
  file whole (unless \<open>buildBulkCSV\<close> throws); with a product concurrency of \<open>2^32\<close> or
  more it writes nothing at all.
\<close>

theorem C5_incremental_append:
  fixes extractOne :: "nat \<Rightarrow> job \<Rightarrow> 'f + jsval"
  shows
  "(k \<le> length inputRows \<longrightarrow>
      jsonl (batch_after extractProduct err_text stringify stamp inputRows s0 k)
        = jsonl s0 @ map (summary_line extractProduct err_text stringify stamp inputRows) [0..<k]
      \<and> csv (batch_after extractProduct err_text stringify stamp inputRows s0 k)
        = csv s0 @ concat (map (variant_lines extractProduct inputRows) [0..<k]))
   \<and> (length picks < length validJobs \<longrightarrow>
        bulk_files extractOne err_text' stringify at validJobs productConcurrency picks
          = \<lparr> json_file = None, csv_file = None \<rparr>)
   \<and> (length validJobs \<le> length picks \<and> productConcurrency < 4294967296 \<longrightarrow>
        bulk_files extractOne err_text' stringify at validJobs productConcurrency picks
          = (let processed = mapper_outputs validJobs
                               (product_mapper extractOne err_text' :: job \<Rightarrow> nat \<Rightarrow> unit + jsval)
             in \<lparr> json_file = Some (stringify (Obj [(js ''extracted_at'', Str at),
                                                     (js ''products'', Arr processed)])),
                  csv_file = buildBulkCSV (bulkFlatRows processed) \<rparr>))
   \<and> (4294967296 \<le> productConcurrency \<longrightarrow>
        bulk_files extractOne err_text' stringify at validJobs productConcurrency picks
          = \<lparr> json_file = None, csv_file = None \<rparr>)"
proof -
  let ?m = "product_mapper extractOne err_text' :: job \<Rightarrow> nat \<Rightarrow> unit + jsval"
  have k1: "1 \<le> nat (max 1 productConcurrency)" by simp
  have nt: "never_throws validJobs ?m" by (rule product_mapper_never_throws)
  have a: "jsonl (batch_after extractProduct err_text stringify stamp inputRows s0 k)
        = jsonl s0 @ map (summary_line extractProduct err_text stringify stamp inputRows) [0..<k]
      \<and> csv (batch_after extractProduct err_text stringify stamp inputRows s0 k)
        = csv s0 @ concat (map (variant_lines extractProduct inputRows) [0..<k])"
    if "k \<le> length inputRows"
    unfolding batch_after_def
    by (simp only: batch_steps [OF that, where extractProduct = extractProduct
          and err_text = err_text and stringify = stringify and stamp = stamp and ?s0.0 = s0])
       simp
  have d: "bulk_files extractOne err_text' stringify at validJobs productConcurrency picks
          = \<lparr> json_file = None, csv_file = None \<rparr>"
    if "4294967296 \<le> productConcurrency"
    by (simp add: bulk_files_def mapLimit_run_range [OF that])
  have b: "bulk_files extractOne err_text' stringify at validJobs productConcurrency picks
          = \<lparr> json_file = None, csv_file = None \<rparr>"
    if "length picks < length validJobs"
  proof (cases "productConcurrency < 4294967296")
    case True
    note run = pool_run [OF nt True, where picks = picks]
    have "settled (mapLimit_run validJobs productConcurrency ?m picks) = None"
      using pool_busy(1) [OF run(1) k1] run(2) that by simp
    then show ?thesis by (simp add: bulk_files_def)
  next
    case False
    then show ?thesis using d by simp
  qed
  have c: "bulk_files extractOne err_text' stringify at validJobs productConcurrency picks
          = (let processed = mapper_outputs validJobs ?m
             in \<lparr> json_file = Some (stringify (Obj [(js ''extracted_at'', Str at),
                                                     (js ''products'', Arr processed)])),
                  csv_file = buildBulkCSV (bulkFlatRows processed) \<rparr>)"
    if "length validJobs \<le> length picks" and lt: "productConcurrency < 4294967296"
  proof -
    note run = pool_run [OF nt lt, where picks = picks]
    have "settled (mapLimit_run validJobs productConcurrency ?m picks)
          = Some (Inr (map Some (mapper_outputs validJobs ?m)))"
      using pool_done(1) [OF run(1) k1] run(2) that by simp
    then show ?thesis by (simp add: bulk_files_def Let_def comp_def)
  qed
  show ?thesis using a b c d by blast
qed

lemma demo_summaries:
  "map (summary_line demo_extractProduct no_text demo_stringify no_stamp demo_rows) [0..<2]
   = [js ''json of '' @ js ''a'', js ''json of '' @ js ''b'']"
  by (simp add: summary_line_def demo_extractProduct_def demo_rows_def demo_stringify_def
      errSummary_def js_eq_iff eval_nat_numeral)

lemma demo_variants:
  "concat (map (variant_lines demo_extractProduct demo_rows) [0..<2])
   = [variant_line (demo_variant (js ''a''))]"
  by (simp add: variant_lines_def demo_extractProduct_def demo_rows_def eval_nat_numeral)

lemma demo_processed:
  "bulkFlatRows (mapper_outputs demo_jobs
      (product_mapper demo_extractOne no_text :: job \<Rightarrow> nat \<Rightarrow> unit + jsval))
   = [Obj [(js ''pid'', Str (js ''P1''))], Obj [(js ''pid'', Str (js ''P2''))]]"
  by (simp add: bulkFlatRows_def mapper_outputs_def product_mapper_def demo_extractOne_def
      demo_jobs_def js_eq_iff eval_nat_numeral)

lemma demo_csv:
  "buildBulkCSV [Obj [(js ''pid'', Str (js ''P1''))], Obj [(js ''pid'', Str (js ''P2''))]]
   = Some (join_with [LF]
             [join_with [COMMA] bulk_headers,
              js '',,P1,,,,,,,,,,,,,,,,,,,,,,,,,'', js '',,P2,,,,,,,,,,,,,,,,,,,,,,,,,''])"
  by (simp add: buildBulkCSV_def csv_line_def csvEscape_def escape_text_def needs_quoting_def
      bulk_headers_def js_eq_iff)
     (simp add: js_def COMMA_def DQUOTE_def LF_def CR_def)

theorem C5_incremental_append_witness:
  "jsonl (batch_after demo_extractProduct no_text demo_stringify no_stamp demo_rows empty_sinks 2)
     = [js ''json of '' @ js ''a'', js ''json of '' @ js ''b'']
   \<and> csv (batch_after demo_extractProduct no_text demo_stringify no_stamp demo_rows empty_sinks 2)
     = csv empty_sinks @ [variant_line (demo_variant (js ''a''))]
   \<and> bulk_files demo_extractOne no_text demo_stringify [] demo_jobs 1 [0]
     = \<lparr> json_file = None, csv_file = None \<rparr>
   \<and> csv_file (bulk_files demo_extractOne no_text demo_stringify [] demo_jobs 1 [0, 0])
     = Some (join_with [LF]
               [join_with [COMMA] bulk_headers,
                js '',,P1,,,,,,,,,,,,,,,,,,,,,,,,,'', js '',,P2,,,,,,,,,,,,,,,,,,,,,,,,,''])
   \<and> bulk_files demo_extractOne no_text demo_stringify [] demo_jobs 4294967296 [0, 0]
     = \<lparr> json_file = None, csv_file = None \<rparr>"
proof -
  have l: "2 \<le> length demo_rows" "length [0 :: nat] < length demo_jobs"
    "length demo_jobs \<le> length [0 :: nat, 0]"
    by (simp_all add: demo_rows_def demo_jobs_def)
  note t = C5_incremental_append
    [where k = 2 and inputRows = demo_rows and extractProduct = demo_extractProduct
       and err_text = no_text and stringify = demo_stringify and stamp = no_stamp
       and ?s0.0 = empty_sinks and validJobs = demo_jobs and extractOne = demo_extractOne
       and err_text' = no_text and at = "[]"]
  have a: "jsonl (batch_after demo_extractProduct no_text demo_stringify no_stamp demo_rows empty_sinks 2)
        = jsonl empty_sinks
          @ map (summary_line demo_extractProduct no_text demo_stringify no_stamp demo_rows) [0..<2]"
    and b: "csv (batch_after demo_extractProduct no_text demo_stringify no_stamp demo_rows empty_sinks 2)
        = csv empty_sinks @ concat (map (variant_lines demo_extractProduct demo_rows) [0..<2])"
    using t [where picks = "[]" and productConcurrency = 1, THEN conjunct1] l(1) by blast+
  have c: "bulk_files demo_extractOne no_text demo_stringify [] demo_jobs 1 [0]
     = \<lparr> json_file = None, csv_file = None \<rparr>"
    using t [where picks = "[0]" and productConcurrency = 1, THEN conjunct2, THEN conjunct1] l(2)
    by blast
  have d: "bulk_files demo_extractOne no_text demo_stringify [] demo_jobs 1 [0, 0]
     = (let processed = mapper_outputs demo_jobs
                               (product_mapper demo_extractOne no_text :: job \<Rightarrow> nat \<Rightarrow> unit + jsval)
             in \<lparr> json_file = Some (demo_stringify (Obj [(js ''extracted_at'', Str []),
                                                     (js ''products'', Arr processed)])),
                  csv_file = buildBulkCSV (bulkFlatRows processed) \<rparr>)"
    using t [where picks = "[0, 0]" and productConcurrency = 1,
             THEN conjunct2, THEN conjunct2, THEN conjunct1] l(3)
    by simp
  have f: "bulk_files demo_extractOne no_text demo_stringify [] demo_jobs 4294967296 [0, 0]
     = \<lparr> json_file = None, csv_file = None \<rparr>"
    using t [where picks = "[0, 0]" and productConcurrency = 4294967296,
             THEN conjunct2, THEN conjunct2, THEN conjunct2]
    by simp
  have e: "jsonl empty_sinks = []" by (simp add: empty_sinks_def)
  show ?thesis
    unfolding a b c d f Let_def demo_summaries demo_variants demo_processed demo_csv e by simp
qed

end
